theory Spec2Isabelle
  imports Main "HOL-Library.Word"
begin

section \<open>BLE temperature and humidity server: the scheduling core\<close>

text \<open>
  A shallow embedding of \<^verbatim>\<open>BTLE_Temp_Server.ino\<close>: the time parser
  (\<^verbatim>\<open>getDigits\<close>, \<^verbatim>\<open>setRtcTime\<close>), the write callback of the time
  characteristic, the config reader (\<^verbatim>\<open>readln\<close>, \<^verbatim>\<open>readKey\<close>), the checkpoint
  (\<^verbatim>\<open>backupTimeValue\<close>), \<^verbatim>\<open>setup\<close> and \<^verbatim>\<open>loop\<close>.

  The global variables of the sketch are the fields of one record. The collaborators the
  sketch calls (the ESP32Time clock, the SPIFFS file system, the DHT driver, the BLE
  characteristics) are fields of the same record, changed by the sketch through their
  calls and by the environment between two iterations of \<^verbatim>\<open>loop\<close>. The serial
  diagnostics and the LED are not modelled. Within one iteration of \<^verbatim>\<open>loop\<close> the
  clock does not advance.
\<close>

subsection \<open>C strings in character buffers\<close>

text \<open>
  A buffer is the list of its bytes. The C string in a buffer is what precedes the first
  NUL byte. All buffers the sketch reads as strings hold a NUL, except an output buffer
  of \<^verbatim>\<open>readKey\<close> that \<^verbatim>\<open>strncpy\<close> filled completely.
\<close>

definition NUL :: char where
  "NUL = CHR 0x00"

definition LF :: char where
  "LF = CHR 0x0A"

definition CR :: char where
  "CR = CHR 0x0D"

definition cstr :: "string \<Rightarrow> string" where
  "cstr buf = takeWhile (\<lambda>c. c \<noteq> NUL) buf"

definition strlen :: "string \<Rightarrow> nat" where
  "strlen buf = length (cstr buf)"

text \<open>
  \<^verbatim>\<open>strncpy(dst, src, n)\<close> writes exactly \<open>n\<close> bytes: the string \<open>src\<close> cut after
  \<open>n\<close> bytes, or followed by NUL bytes up to \<open>n\<close>. It writes no terminator when
  \<open>src\<close> has \<open>n\<close> bytes or more.
\<close>

definition strncpy :: "string \<Rightarrow> string \<Rightarrow> nat \<Rightarrow> string" where
  "strncpy dst src n = take n (cstr src @ replicate n NUL) @ drop n dst"

definition strcpy :: "string \<Rightarrow> string \<Rightarrow> string" where
  "strcpy dst src = cstr src @ [NUL] @ drop (Suc (strlen src)) dst"

text \<open>\<^verbatim>\<open>strncmp(a, b, n) == 0\<close>: the two strings agree on their first \<open>n\<close> bytes.\<close>

definition strncmp_eq :: "string \<Rightarrow> string \<Rightarrow> nat \<Rightarrow> bool" where
  "strncmp_eq a b n = (take n (cstr a) = take n (cstr b))"

definition strcmp_eq :: "string \<Rightarrow> string \<Rightarrow> bool" where
  "strcmp_eq a b = (cstr a = cstr b)"

subsection \<open>getDigits\<close>

definition is_digit :: "char \<Rightarrow> bool" where
  "is_digit c = (48 \<le> (of_char c :: nat) \<and> (of_char c :: nat) \<le> 57)"

text \<open>
  The loop of \<^verbatim>\<open>getDigits\<close>, with \<open>val\<close> the value so far, \<open>p\<close> the bytes from the
  pointer on and the number of digits still to read. At most four digits are read, so the
  C \<^verbatim>\<open>int\<close> does not overflow. A read at the end of the list finds no digit, like the
  terminator of the string; \<^verbatim>\<open>setRtcTime\<close> never reads that far.
\<close>

fun getDigits_from :: "int \<Rightarrow> string \<Rightarrow> nat \<Rightarrow> int" where
  "getDigits_from val p 0 = val"
| "getDigits_from val [] (Suc n) = - 1"
| "getDigits_from val (c # p) (Suc n) =
     (if is_digit c then getDigits_from (val * 10 + (int (of_char c) - 48)) p n else - 1)"

definition getDigits :: "string \<Rightarrow> nat \<Rightarrow> int" where
  "getDigits p nDigits = getDigits_from 0 p nDigits"

subsection \<open>The software clock\<close>

record ClockValue =
  year :: int
  month :: int
  day :: int
  hour :: int
  minute :: int
  second :: int

text \<open>
  Modelled from the spec: the ESP32Time library is not part of the repository. Section 4.2
  of the spec gives its contract: \<^verbatim>\<open>setTime\<close> replaces the clock value, the getters
  are pure reads. A day that the month does not have is outside this model.
\<close>

definition setTime :: "int \<Rightarrow> int \<Rightarrow> int \<Rightarrow> int \<Rightarrow> int \<Rightarrow> int \<Rightarrow> ClockValue" where
  "setTime sc mn hr dy mt yr =
     \<lparr>year = yr, month = mt, day = dy, hour = hr, minute = mn, second = sc\<rparr>"

definition getSecond :: "ClockValue \<Rightarrow> int" where
  "getSecond c = second c"

definition getHour :: "ClockValue \<Rightarrow> int" where
  "getHour c = hour c"

definition digit_char :: "int \<Rightarrow> char" where
  "digit_char n = ''0123456789'' ! nat (n mod 10)"

definition fmt2 :: "int \<Rightarrow> string" where
  "fmt2 n = [digit_char (n div 10), digit_char n]"

definition fmt4 :: "int \<Rightarrow> string" where
  "fmt4 n = [digit_char (n div 1000), digit_char (n div 100), digit_char (n div 10), digit_char n]"

text \<open>\<^verbatim>\<open>rtc.getTime("%Y/%m/%d %H:%M:%S")\<close>, for a year of four digits.\<close>

definition getTime :: "ClockValue \<Rightarrow> string" where
  "getTime c = fmt4 (year c) @ ''/'' @ fmt2 (month c) @ ''/'' @ fmt2 (day c) @ '' ''
     @ fmt2 (hour c) @ '':'' @ fmt2 (minute c) @ '':'' @ fmt2 (second c)"

subsection \<open>The state\<close>

text \<open>
  The DHT driver is a library outside the repository: \<^verbatim>\<open>readTemperature\<close> and
  \<^verbatim>\<open>readHumidity\<close> return a \<^verbatim>\<open>float\<close>, NaN when the read failed. Floating point
  is outside the model: a finite value is carried as the text that \<^verbatim>\<open>sprintf\<close>
  prints for it, and NaN is printed as \<open>nan\<close>.
\<close>

datatype dht_float = NaN | Finite string

fun sprintf_f :: "dht_float \<Rightarrow> string" where
  "sprintf_f NaN = ''nan''"
| "sprintf_f (Finite txt) = txt"

text \<open>What the sketch does to the outside, in the order it does it.\<close>

datatype event =
    TimeValue string
  | TempValue string
  | TempNotify
  | HumValue string
  | HumNotify
  | BackupWritten string
  | BackupFailed

datatype dht_type = DHT11 | DHT22

record state =
  rtc :: ClockValue
  lastSecond :: int
  lastHr :: int
  secondCtr :: "32 word"
  updateRateSec :: "32 word"
  sensorIsDHT11 :: bool
  tempIsF :: bool
  bleServerName :: string
  setTimeData :: string
  dhtTimeCharacteristics :: string
  dhtTemperatureFahrenheitCharacteristics :: string
  dhtHumidityCharacteristics :: string
  dht_kind :: dht_type
  dht_temperature :: dht_float
  dht_humidity :: dht_float
  spiffs :: "string \<rightharpoonup> string"
  spiffs_writable :: bool
  trace :: "event list"

definition CONFIGFN :: string where
  "CONFIGFN = ''/config.ini''"

definition BACKUPFN :: string where
  "BACKUPFN = ''/backup.dat''"

definition emit :: "event \<Rightarrow> state \<Rightarrow> state" where
  "emit e s = s\<lparr>trace := trace s @ [e]\<rparr>"

subsection \<open>setRtcTime\<close>

definition setRtcTime :: "string \<Rightarrow> state \<Rightarrow> state" where
  "setRtcTime tstring s =
     (if strlen tstring < 19 then s
      else
        let tyr = getDigits (drop 0 tstring) 4;
            tmo = getDigits (drop 5 tstring) 2;
            tda = getDigits (drop 8 tstring) 2;
            thr = getDigits (drop 11 tstring) 2;
            tmn = getDigits (drop 14 tstring) 2;
            tse = getDigits (drop 17 tstring) 2
        in if 2024 \<le> tyr \<and> tyr \<le> 2100 \<and>
              1 \<le> tmo \<and> tmo \<le> 12 \<and>
              1 \<le> tda \<and> tda \<le> 31 \<and>
              0 \<le> thr \<and> thr \<le> 23 \<and>
              0 \<le> tmn \<and> tmn \<le> 59 \<and>
              0 \<le> tse \<and> tse \<le> 59 \<and>
              tstring ! 4 = CHR ''/'' \<and>
              tstring ! 7 = CHR ''/'' \<and>
              tstring ! 13 = CHR '':'' \<and>
              tstring ! 16 = CHR '':''
           then s\<lparr>rtc := setTime tse tmn thr tda tmo tyr, lastSecond := tse, lastHr := thr\<rparr>
           else s)"

text \<open>The guard of \<^verbatim>\<open>setRtcTime\<close> on its own: the strings it applies.\<close>

definition accepted :: "string \<Rightarrow> bool" where
  "accepted tstring =
     (19 \<le> strlen tstring \<and>
      2024 \<le> getDigits (drop 0 tstring) 4 \<and> getDigits (drop 0 tstring) 4 \<le> 2100 \<and>
      1 \<le> getDigits (drop 5 tstring) 2 \<and> getDigits (drop 5 tstring) 2 \<le> 12 \<and>
      1 \<le> getDigits (drop 8 tstring) 2 \<and> getDigits (drop 8 tstring) 2 \<le> 31 \<and>
      0 \<le> getDigits (drop 11 tstring) 2 \<and> getDigits (drop 11 tstring) 2 \<le> 23 \<and>
      0 \<le> getDigits (drop 14 tstring) 2 \<and> getDigits (drop 14 tstring) 2 \<le> 59 \<and>
      0 \<le> getDigits (drop 17 tstring) 2 \<and> getDigits (drop 17 tstring) 2 \<le> 59 \<and>
      tstring ! 4 = CHR ''/'' \<and> tstring ! 7 = CHR ''/'' \<and>
      tstring ! 13 = CHR '':'' \<and> tstring ! 16 = CHR '':'')"

text \<open>
  The pattern of the spec, on the first 19 bytes of the string: four delimiters at fixed
  places, decimal digits in the six fields, each value in its range.
\<close>

definition field :: "string \<Rightarrow> nat \<Rightarrow> nat \<Rightarrow> string" where
  "field t i n = take n (drop i t)"

definition decimal :: "string \<Rightarrow> int" where
  "decimal ds = foldl (\<lambda>v c. v * 10 + (int (of_char c) - 48)) 0 ds"

definition all_digits :: "string \<Rightarrow> bool" where
  "all_digits ds = list_all is_digit ds"

definition in_range :: "string \<Rightarrow> int \<Rightarrow> int \<Rightarrow> bool" where
  "in_range ds lo hi = (all_digits ds \<and> lo \<le> decimal ds \<and> decimal ds \<le> hi)"

definition prefix_well_formed :: "string \<Rightarrow> bool" where
  "prefix_well_formed t =
     (19 \<le> strlen t \<and>
      t ! 4 = CHR ''/'' \<and> t ! 7 = CHR ''/'' \<and> t ! 13 = CHR '':'' \<and> t ! 16 = CHR '':'' \<and>
      in_range (field t 0 4) 2024 2100 \<and>
      in_range (field t 5 2) 1 12 \<and>
      in_range (field t 8 2) 1 31 \<and>
      in_range (field t 11 2) 0 23 \<and>
      in_range (field t 14 2) 0 59 \<and>
      in_range (field t 17 2) 0 59)"

subsection \<open>The write callback of the time characteristic\<close>

text \<open>
  \<^verbatim>\<open>onWrite\<close> copies the value of the characteristic into \<^verbatim>\<open>setTimeData\<close>. The
  array has 32 bytes and starts as zeros; \<^verbatim>\<open>strncpy\<close> writes the first 31.
\<close>

definition onWrite :: "state \<Rightarrow> state" where
  "onWrite s = s\<lparr>setTimeData := strncpy (setTimeData s) (dhtTimeCharacteristics s) 31\<rparr>"

text \<open>A client writes \<open>v\<close>: the BLE stack stores the value, then calls the callback.\<close>

definition client_write :: "string \<Rightarrow> state \<Rightarrow> state" where
  "client_write v s = onWrite (s\<lparr>dhtTimeCharacteristics := v\<rparr>)"

subsection \<open>backupTimeValue\<close>

text \<open>
  \<^verbatim>\<open>println\<close> ends the line with CR LF. When the file cannot be opened for writing the
  function returns at once.
\<close>

definition backupTimeValue :: "state \<Rightarrow> state" where
  "backupTimeValue s =
     (let buf = ''TIME='' @ getTime (rtc s)
      in if \<not> spiffs_writable s then emit BackupFailed s
         else emit (BackupWritten buf) (s\<lparr>spiffs := (spiffs s)(BACKUPFN \<mapsto> buf @ [CR, LF])\<rparr>))"

subsection \<open>loop\<close>

datatype error = IntegerDivideByZero

text \<open>The time characteristic, once a second (lines 451 to 463).\<close>

definition time_task :: "state \<Rightarrow> state" where
  "time_task s =
     (if 0 < strlen (setTimeData s)
      then let s1 = setRtcTime (setTimeData s) s;
               s2 = s1\<lparr>setTimeData := (setTimeData s1)[0 := NUL]\<rparr>
           in backupTimeValue s2
      else let ttag = getTime (rtc s)
           in emit (TimeValue ttag) (s\<lparr>dhtTimeCharacteristics := ttag\<rparr>))"

text \<open>The body of the cadence branch (lines 468 to 499).\<close>

definition sample_task :: "state \<Rightarrow> state" where
  "sample_task s =
     (let s1 = s\<lparr>dht_kind := (if sensorIsDHT11 s then DHT11 else DHT22)\<rparr>;
          tempF = dht_temperature s1;
          hum = dht_humidity s1;
          s2 = emit TempNotify
                 (emit (TempValue (sprintf_f tempF))
                    (s1\<lparr>dhtTemperatureFahrenheitCharacteristics := sprintf_f tempF\<rparr>));
          s3 = emit HumNotify
                 (emit (HumValue (sprintf_f hum))
                    (s2\<lparr>dhtHumidityCharacteristics := sprintf_f hum\<rparr>))
      in s3)"

text \<open>
  The remainder of an unsigned division by zero raises the IntegerDivideByZero exception
  of the processor, which restarts the program.
\<close>

definition cadence_task :: "state \<Rightarrow> error + state" where
  "cadence_task s =
     (if updateRateSec s = 0 then Inl IntegerDivideByZero
      else if secondCtr s mod updateRateSec s = 0 then Inr (sample_task s)
      else Inr s)"

text \<open>The hourly task (lines 503 to 510).\<close>

definition hour_task :: "state \<Rightarrow> state" where
  "hour_task s =
     (let hr = getHour (rtc s)
      in if hr \<noteq> lastHr s then backupTimeValue (s\<lparr>lastHr := hr\<rparr>) else s)"

definition loop :: "state \<Rightarrow> error + state" where
  "loop s =
     (let sec = getSecond (rtc s)
      in if sec \<noteq> lastSecond s
         then (case cadence_task (time_task (s\<lparr>lastSecond := sec, secondCtr := secondCtr s + 1\<rparr>)) of
                 Inl e \<Rightarrow> Inl e
               | Inr s' \<Rightarrow> Inr (hour_task s'))
         else Inr (hour_task s))"

subsection \<open>readln and readKey\<close>

text \<open>
  The sketch runs on the ESP32, whose compiler takes plain \<^verbatim>\<open>char\<close> as unsigned: the
  test \<^verbatim>\<open>c < 0\<close> of \<^verbatim>\<open>readln\<close> is never true there.
\<close>

definition plain_char_is_signed :: bool where
  "plain_char_is_signed = False"

definition lt_zero :: "char \<Rightarrow> bool" where
  "lt_zero c = (plain_char_is_signed \<and> 128 \<le> (of_char c :: nat))"

text \<open>
  The loop of \<^verbatim>\<open>readln\<close>: \<open>buf\<close> holds the \<^verbatim>\<open>len\<close> bytes stored so far, the
  second argument is what the file still holds. The result is \<^verbatim>\<open>!eof\<close>, the bytes
  stored and the rest of the file.
\<close>

fun readln_from :: "string \<Rightarrow> string \<Rightarrow> int \<Rightarrow> bool \<times> string \<times> string" where
  "readln_from buf [] maxlen =
     (if int (length buf) < maxlen - 1 then (False, buf, []) else (True, buf, []))"
| "readln_from buf (c # finp) maxlen =
     (if \<not> int (length buf) < maxlen - 1 then (True, buf, c # finp)
      else if lt_zero c then (False, buf, finp)
      else if c = CR then readln_from buf finp maxlen
      else if c = LF then (True, buf, finp)
      else readln_from (buf @ [c]) finp maxlen)"

text \<open>\<^verbatim>\<open>readln\<close> terminates what it stored with a NUL byte.\<close>

definition readln :: "string \<Rightarrow> int \<Rightarrow> bool \<times> string \<times> string" where
  "readln finp maxlen =
     (case readln_from [] finp maxlen of (ok, buf, rest) \<Rightarrow> (ok, buf @ [NUL], rest))"

lemma readln_from_rest_le: "length (snd (snd (readln_from buf finp maxlen))) \<le> length finp"
  by (induction finp arbitrary: buf) (auto simp: le_SucI)

lemma readln_from_rest_less:
  assumes "fst (readln_from buf finp maxlen)" and "int (length buf) < maxlen - 1"
  shows "length (snd (snd (readln_from buf finp maxlen))) < length finp"
proof (cases finp)
  case Nil
  with assms show ?thesis by simp
next
  case (Cons c cs)
  have "length (snd (snd (readln_from b cs maxlen))) < Suc (length cs)" for b
    using readln_from_rest_le [of b cs maxlen] by simp
  with assms Cons show ?thesis by simp
qed

lemma readln_rest_less:
  "fst (readln finp 127) \<Longrightarrow> length (snd (snd (readln finp 127))) < length finp"
  using readln_from_rest_less [of "[]" finp 127]
  by (simp add: readln_def split: prod.splits)

text \<open>The scan of \<^verbatim>\<open>readKey\<close> over an open file, with \<open>n\<close> the length of the key.\<close>

function readKey_scan :: "string \<Rightarrow> string \<Rightarrow> string \<Rightarrow> nat \<Rightarrow> string" where
  "readKey_scan finp key outbuf maxlen =
     (let r = readln finp 127; n = strlen key
      in if fst r
         then let buf = fst (snd r)
              in if strncmp_eq buf key n then strncpy outbuf (drop n buf) maxlen
                 else readKey_scan (snd (snd r)) key outbuf maxlen
         else outbuf)"
  by pat_completeness auto
termination
  by (relation "measure (\<lambda>(finp, key, outbuf, maxlen). length finp)")
     (auto simp: readln_rest_less)

declare readKey_scan.simps [simp del]

definition readKey :: "(string \<rightharpoonup> string) \<Rightarrow> string \<Rightarrow> string \<Rightarrow> string \<Rightarrow> nat \<Rightarrow> string" where
  "readKey fs configFn key outbuf maxlen =
     (let outbuf0 = outbuf[0 := NUL]
      in case fs configFn of
           None \<Rightarrow> outbuf0
         | Some finp \<Rightarrow> readKey_scan finp key outbuf0 maxlen)"

text \<open>
  The lookup in the words of the spec, on the lines of a text file: the first line whose
  prefix equals the key wins, and its value is what follows the key; the empty string when
  no line begins with the key. A line of text has no line end and no NUL byte in it and
  fits the buffer of \<^verbatim>\<open>readKey\<close>, which holds 126 bytes and the terminator.
\<close>

definition text_line :: "string \<Rightarrow> bool" where
  "text_line l = (length l \<le> 126 \<and> LF \<notin> set l \<and> CR \<notin> set l \<and> NUL \<notin> set l)"

definition lookup_value :: "string \<Rightarrow> string list \<Rightarrow> string" where
  "lookup_value key ls =
     (case find (\<lambda>l. take (length key) l = key) ls of
        None \<Rightarrow> []
      | Some l \<Rightarrow> drop (length key) l)"

subsection \<open>setup\<close>

text \<open>
  \<^verbatim>\<open>atoi\<close> of the C library: white space, an optional sign, decimal digits. The
  library of the ESP32 computes it with \<^verbatim>\<open>strtol\<close>, which stops at the bounds of a
  32-bit \<^verbatim>\<open>long\<close>.
\<close>

definition isspace :: "char \<Rightarrow> bool" where
  "isspace c = (c = CHR '' '' \<or> (9 \<le> (of_char c :: nat) \<and> (of_char c :: nat) \<le> 13))"

definition atoi :: "string \<Rightarrow> int" where
  "atoi buf =
     (let t = dropWhile isspace (cstr buf);
          v = (case t of
                 c # r \<Rightarrow>
                   if c = CHR ''-'' then - decimal (takeWhile is_digit r)
                   else if c = CHR ''+'' then decimal (takeWhile is_digit r)
                   else decimal (takeWhile is_digit t)
               | [] \<Rightarrow> 0)
      in max (- 2147483648) (min 2147483647 v))"

text \<open>The first byte of an array; the arrays of the sketch have 32, 64 and 128 bytes.\<close>

definition first_byte :: "string \<Rightarrow> char" where
  "first_byte buf = (case buf of [] \<Rightarrow> NUL | c # _ \<Rightarrow> c)"

text \<open>
  The globals as the C initialisers leave them, around the collaborators as the power-on
  finds them: the files in flash, whether they can be written, what the sensor reads.
\<close>

definition power_on :: "(string \<rightharpoonup> string) \<Rightarrow> bool \<Rightarrow> dht_float \<Rightarrow> dht_float \<Rightarrow> state" where
  "power_on files writable t h =
     \<lparr>rtc = setTime 0 0 0 1 1 1970,
      lastSecond = - 1,
      lastHr = - 1,
      secondCtr = 0,
      updateRateSec = 5,
      sensorIsDHT11 = True,
      tempIsF = True,
      bleServerName = replicate 64 NUL,
      setTimeData = replicate 32 NUL,
      dhtTimeCharacteristics = [],
      dhtTemperatureFahrenheitCharacteristics = [],
      dhtHumidityCharacteristics = [],
      dht_kind = DHT11,
      dht_temperature = t,
      dht_humidity = h,
      spiffs = files,
      spiffs_writable = writable,
      trace = []\<rparr>"

text \<open>
  \<^verbatim>\<open>setup\<close>, without the registration of the BLE service. \<open>mounted\<close> is the result
  of \<^verbatim>\<open>SPIFFS.begin\<close>; \<open>tmpbuf\<close> is the local array of 32 bytes as the stack holds it
  on entry.
\<close>

definition setup_app :: "bool \<Rightarrow> string \<Rightarrow> state \<Rightarrow> state" where
  "setup_app mounted tmpbuf s0 =
     (let s1 = s0\<lparr>rtc := setTime 0 0 0 1 1 2024\<rparr>;
          s2 = s1\<lparr>bleServerName := (bleServerName s1)[0 := NUL],
                  sensorIsDHT11 := True,
                  updateRateSec := 10\<rparr>;
          s3 = (if \<not> mounted then s2
                else
                  let name = readKey (spiffs s2) CONFIGFN ''SERVERNAME='' (bleServerName s2) 63;
                      tmpbuf1 = readKey (spiffs s2) CONFIGFN ''SENSOR='' tmpbuf 15;
                      dht11 = strcmp_eq tmpbuf1 ''DHT11'';
                      tmpbuf2 = readKey (spiffs s2) CONFIGFN ''UPDATERATE='' tmpbuf1 15;
                      x0 = atoi tmpbuf2;
                      x1 = (if x0 < 2 then 2 else x0);
                      x2 = (if x1 > 60 then 60 else x1);
                      tmpbuf3 = readKey (spiffs s2) CONFIGFN ''UNITS='' tmpbuf2 15;
                      c = first_byte tmpbuf3;
                      isF = (if c = CHR ''C'' \<or> c = CHR ''c'' then False else True);
                      tmpbuf4 = readKey (spiffs s2) BACKUPFN ''TIME='' tmpbuf3 31
                  in setRtcTime tmpbuf4
                       (s2\<lparr>bleServerName := name,
                           sensorIsDHT11 := dht11,
                           updateRateSec := word_of_int x2,
                           tempIsF := isF\<rparr>));
          s4 = (if first_byte (bleServerName s3) = NUL
                then s3\<lparr>bleServerName := strcpy (bleServerName s3) ''DIY Temp Humidity Sensor''\<rparr>
                else s3);
          s5 = s4\<lparr>dht_kind := (if sensorIsDHT11 s4 then DHT11 else DHT22)\<rparr>
      in s5\<lparr>lastSecond := getSecond (rtc s5), lastHr := getHour (rtc s5), secondCtr := 0\<rparr>)"

subsection \<open>The program in its environment\<close>

text \<open>
  Between two iterations of \<^verbatim>\<open>loop\<close> the clock advances, a client writes the time
  characteristic, the sensor's reading changes or fails, the flash becomes writable or
  not. A run is a list of such inputs and iterations; it stops at the first error.
\<close>

datatype input =
    Iterate
  | ClockAdvance ClockValue
  | ClientWrite string
  | SensorReads dht_float dht_float
  | FlashWritable bool

fun step :: "input \<Rightarrow> state \<Rightarrow> error + state" where
  "step Iterate s = loop s"
| "step (ClockAdvance c) s = Inr (s\<lparr>rtc := c\<rparr>)"
| "step (ClientWrite v) s = Inr (client_write v s)"
| "step (SensorReads t h) s = Inr (s\<lparr>dht_temperature := t, dht_humidity := h\<rparr>)"
| "step (FlashWritable w) s = Inr (s\<lparr>spiffs_writable := w\<rparr>)"

fun run :: "input list \<Rightarrow> state \<Rightarrow> error + state" where
  "run [] s = Inr s"
| "run (i # ins) s = (case step i s of Inl e \<Rightarrow> Inl e | Inr s' \<Rightarrow> run ins s')"

text \<open>The events one iteration added to the trace.\<close>

definition new_events :: "state \<Rightarrow> state \<Rightarrow> event list" where
  "new_events s s' = drop (length (trace s)) (trace s')"

fun is_backup :: "event \<Rightarrow> bool" where
  "is_backup (BackupWritten _) = True"
| "is_backup BackupFailed = True"
| "is_backup _ = False"

fun is_sample :: "event \<Rightarrow> bool" where
  "is_sample (TempValue _) = True"
| "is_sample TempNotify = True"
| "is_sample (HumValue _) = True"
| "is_sample HumNotify = True"
| "is_sample _ = False"

definition checkpoints :: "event list \<Rightarrow> nat" where
  "checkpoints es = length (filter is_backup es)"

text \<open>The tests of \<^verbatim>\<open>loop\<close>, named.\<close>

definition second_edge :: "state \<Rightarrow> bool" where
  "second_edge s = (getSecond (rtc s) \<noteq> lastSecond s)"

definition hour_edge :: "state \<Rightarrow> bool" where
  "hour_edge s = (getHour (rtc s) \<noteq> lastHr s)"

definition pending :: "state \<Rightarrow> bool" where
  "pending s = (0 < strlen (setTimeData s))"

text \<open>What one call of \<^verbatim>\<open>backupTimeValue\<close> adds to the trace.\<close>

definition backup_event :: "state \<Rightarrow> event" where
  "backup_event s =
     (if spiffs_writable s then BackupWritten (''TIME='' @ getTime (rtc s)) else BackupFailed)"

text \<open>What one sample adds to the trace.\<close>

definition sample_events :: "state \<Rightarrow> event list" where
  "sample_events s =
     [TempValue (sprintf_f (dht_temperature s)), TempNotify,
      HumValue (sprintf_f (dht_humidity s)), HumNotify]"

subsection \<open>Example states\<close>

text \<open>
  The sketch after a start without a file system: the clock reads 2024/01/01 00:00:00, the
  cadence is 10 seconds, the sensor reads 72.5 degrees and 40 percent.
\<close>

definition booted :: state where
  "booted = setup_app False (replicate 32 NUL)
              (power_on Map.empty True (Finite ''72.5'') (Finite ''40''))"

text \<open>
  A client has written a string with dashes for slashes, and the clock has reached the
  next second.
\<close>

definition staged_invalid :: state where
  "staged_invalid =
     projr (run [ClientWrite ''2024-02-23 12:34:56'', ClockAdvance (setTime 1 0 0 1 1 2024)] booted)"

text \<open>A client has written a well-formed string, and the clock has reached 01:00:01.\<close>

definition staged_valid :: state where
  "staged_valid =
     projr (run [ClientWrite ''2024/02/23 12:34:56'', ClockAdvance (setTime 1 0 1 1 1 2024)] booted)"

text \<open>
  A start with a config file that sets the cadence to 2 seconds; after the sample of second
  2 the sensor fails, and the clock has reached second 4.
\<close>

definition booted_rate2 :: state where
  "booted_rate2 = setup_app True (replicate 32 NUL)
     (power_on [CONFIGFN \<mapsto> ''UPDATERATE=2'' @ [LF]] True (Finite ''72.5'') (Finite ''40''))"

definition before_fault :: state where
  "before_fault =
     projr (run [ClockAdvance (setTime 1 0 0 1 1 2024), Iterate,
                 ClockAdvance (setTime 2 0 0 1 1 2024), Iterate,
                 SensorReads NaN NaN,
                 ClockAdvance (setTime 3 0 0 1 1 2024), Iterate,
                 ClockAdvance (setTime 4 0 0 1 1 2024)] booted_rate2)"

text \<open>A start with a cadence of 5 seconds; the clock has reached second 5.\<close>

definition booted_rate5 :: state where
  "booted_rate5 = setup_app True (replicate 32 NUL)
     (power_on [CONFIGFN \<mapsto> ''UPDATERATE=5'' @ [LF]] True (Finite ''72.5'') (Finite ''40''))"

definition fifth_second :: state where
  "fifth_second =
     projr (run [ClockAdvance (setTime 1 0 0 1 1 2024), Iterate,
                 ClockAdvance (setTime 2 0 0 1 1 2024), Iterate,
                 ClockAdvance (setTime 3 0 0 1 1 2024), Iterate,
                 ClockAdvance (setTime 4 0 0 1 1 2024), Iterate,
                 ClockAdvance (setTime 5 0 0 1 1 2024)] booted_rate5)"


text \<open>A flash whose config file has no \<^verbatim>\<open>UPDATERATE\<close> line.\<close>

definition flash_without_rate :: "string \<rightharpoonup> string" where
  "flash_without_rate = [CONFIGFN \<mapsto> ''SERVERNAME=Porch'' @ [LF] @ ''SENSOR=DHT11'' @ [LF]]"

text \<open>
  A config file with CR LF and LF line ends, a value longer than the 15 bytes that
  \<^verbatim>\<open>setup\<close> asks for, and a key that occurs twice.
\<close>

definition example_lines :: "string list" where
  "example_lines =
     [''SERVERNAME=Porch'', ''SENSOR=DHT22 on the porch'', ''UPDATERATE=5'', ''UPDATERATE=7'']"

definition example_config :: string where
  "example_config =
     ''SERVERNAME=Porch'' @ [CR, LF] @ ''SENSOR=DHT22 on the porch'' @ [CR, LF] @
     ''UPDATERATE=5'' @ [CR, LF] @ ''UPDATERATE=7'' @ [LF]"

section \<open>Properties\<close>

subsection \<open>C strings\<close>

lemma cstr_no_NUL: "NUL \<notin> set l \<Longrightarrow> cstr (l @ NUL # rest) = l"
  by (auto simp: cstr_def takeWhile_tail)

lemma cstr_no_NUL_end: "NUL \<notin> set l \<Longrightarrow> cstr l = l"
  by (auto simp: cstr_def)

subsection \<open>The time parser\<close>

lemma getDigits_from_eq:
  "getDigits_from val p n =
     (if n \<le> length p \<and> list_all is_digit (take n p)
      then foldl (\<lambda>v c. v * 10 + (int (of_char c) - 48)) val (take n p) else - 1)"
proof (induction n arbitrary: val p)
  case 0
  show ?case by simp
next
  case (Suc n)
  show ?case by (cases p) (simp_all add: Suc.IH)
qed

lemma getDigits_field:
  "i + n \<le> length t \<Longrightarrow>
   getDigits (drop i t) n = (if all_digits (field t i n) then decimal (field t i n) else - 1)"
  unfolding getDigits_def getDigits_from_eq field_def all_digits_def decimal_def
  by auto

lemma strlen_le_length: "strlen t \<le> length t"
  by (simp add: strlen_def cstr_def length_takeWhile_le)

lemma getDigits_in_range:
  assumes "i + n \<le> length t" and "0 \<le> lo"
  shows "(lo \<le> getDigits (drop i t) n \<and> getDigits (drop i t) n \<le> hi) = in_range (field t i n) lo hi"
  using assms by (auto simp: getDigits_field in_range_def)

lemma accepted_iff_well_formed: "accepted t = prefix_well_formed t"
proof (cases "19 \<le> strlen t")
  case False
  then show ?thesis by (simp add: accepted_def prefix_well_formed_def)
next
  case True
  then have len: "19 \<le> length t" using strlen_le_length [of t] by simp
  have y: "(2024 \<le> getDigits (drop 0 t) 4 \<and> getDigits (drop 0 t) 4 \<le> 2100) = in_range (field t 0 4) 2024 2100"
    using len by (intro getDigits_in_range) simp_all
  have mo: "(1 \<le> getDigits (drop 5 t) 2 \<and> getDigits (drop 5 t) 2 \<le> 12) = in_range (field t 5 2) 1 12"
    using len by (intro getDigits_in_range) simp_all
  have d: "(1 \<le> getDigits (drop 8 t) 2 \<and> getDigits (drop 8 t) 2 \<le> 31) = in_range (field t 8 2) 1 31"
    using len by (intro getDigits_in_range) simp_all
  have h: "(0 \<le> getDigits (drop 11 t) 2 \<and> getDigits (drop 11 t) 2 \<le> 23) = in_range (field t 11 2) 0 23"
    using len by (intro getDigits_in_range) simp_all
  have mi: "(0 \<le> getDigits (drop 14 t) 2 \<and> getDigits (drop 14 t) 2 \<le> 59) = in_range (field t 14 2) 0 59"
    using len by (intro getDigits_in_range) simp_all
  have se: "(0 \<le> getDigits (drop 17 t) 2 \<and> getDigits (drop 17 t) 2 \<le> 59) = in_range (field t 17 2) 0 59"
    using len by (intro getDigits_in_range) simp_all
  show ?thesis
    unfolding accepted_def prefix_well_formed_def
    using y mo d h mi se by blast
qed

lemma setRtcTime_cases:
  "setRtcTime t s =
     (if accepted t
      then s\<lparr>rtc := setTime (getDigits (drop 17 t) 2) (getDigits (drop 14 t) 2)
                      (getDigits (drop 11 t) 2) (getDigits (drop 8 t) 2)
                      (getDigits (drop 5 t) 2) (getDigits (drop 0 t) 4),
             lastSecond := getDigits (drop 17 t) 2,
             lastHr := getDigits (drop 11 t) 2\<rparr>
      else s)"
proof (cases "accepted t")
  case True
  then have "\<not> strlen t < 19" by (simp add: accepted_def)
  with True show ?thesis
    unfolding setRtcTime_def Let_def accepted_def by (simp only: if_True if_False simp_thms)
next
  case False
  show ?thesis
  proof (cases "strlen t < 19")
    case True
    with False show ?thesis by (simp only: setRtcTime_def if_True if_False)
  next
    case ge: False
    then have "19 \<le> strlen t" by simp
    with False ge show ?thesis
      unfolding setRtcTime_def Let_def accepted_def by (simp only: if_True if_False simp_thms)
  qed
qed

lemma rtc_booted: "rtc booted = setTime 0 0 0 1 1 2024"
  by (simp add: booted_def setup_app_def power_on_def Let_def)

lemma setRtcTime_example:
  "setRtcTime ''2024/02/23 12:34:56'' s =
     s\<lparr>rtc := setTime 56 34 12 23 2 2024, lastSecond := 56, lastHr := 12\<rparr>"
proof -
  have "accepted ''2024/02/23 12:34:56''" by code_simp
  moreover have "getDigits (drop 17 ''2024/02/23 12:34:56'') 2 = 56" by code_simp
  moreover have "getDigits (drop 14 ''2024/02/23 12:34:56'') 2 = 34" by code_simp
  moreover have "getDigits (drop 11 ''2024/02/23 12:34:56'') 2 = 12" by code_simp
  moreover have "getDigits (drop 8 ''2024/02/23 12:34:56'') 2 = 23" by code_simp
  moreover have "getDigits (drop 5 ''2024/02/23 12:34:56'') 2 = 2" by code_simp
  moreover have "getDigits (drop 0 ''2024/02/23 12:34:56'') 4 = 2024" by code_simp
  ultimately show ?thesis by (simp only: setRtcTime_cases if_True)
qed

text \<open>
  C1 (amended): a string of fewer than 19 bytes, or one whose first 19 bytes have a wrong
  delimiter at index 4, 7, 13 or 16, a byte that is no digit inside a field, or a field
  outside its range, is rejected by \<^verbatim>\<open>setRtcTime\<close>, and the whole state (clock,
  \<^verbatim>\<open>lastSecond\<close>, \<^verbatim>\<open>lastHr\<close> and all the rest) is what it was.
\<close>

theorem setRtcTime_rejects_unchanged:
  "\<not> prefix_well_formed tstring \<Longrightarrow> setRtcTime tstring s = s"
  by (simp add: setRtcTime_cases accepted_iff_well_formed)

theorem setRtcTime_rejects_unchanged_witness:
  "\<not> prefix_well_formed ''2024-02-23 12:34:56'' \<and>
   setRtcTime ''2024-02-23 12:34:56'' booted = booted"
proof -
  have h: "\<not> prefix_well_formed ''2024-02-23 12:34:56''"
    by (simp add: prefix_well_formed_def)
  show ?thesis using h setRtcTime_rejects_unchanged [OF h, of booted] by simp
qed

text \<open>
  C1 as stated fails: a string of 20 bytes does not have the length of the pattern, and a
  string with \<open>X\<close> where the pattern has its space does not match it, yet
  \<^verbatim>\<open>setRtcTime\<close> applies both. The byte at index 10 and the bytes from index 19 on
  are not looked at.
\<close>

theorem setRtcTime_unexamined_bytes_counterexample:
  "length ''2024/02/23 12:34:56Z'' \<noteq> 19 \<and>
   setRtcTime ''2024/02/23 12:34:56Z'' booted \<noteq> booted \<and>
   ''2024/02/23X12:34:56'' ! 10 \<noteq> CHR '' '' \<and>
   setRtcTime ''2024/02/23X12:34:56'' booted \<noteq> booted"
proof -
  have "accepted ''2024/02/23 12:34:56Z''" by code_simp
  moreover have "getDigits (drop 11 ''2024/02/23 12:34:56Z'') 2 = 12" by code_simp
  ultimately have a: "lastHr (setRtcTime ''2024/02/23 12:34:56Z'' booted) = 12"
    by (simp add: setRtcTime_cases)
  have "accepted ''2024/02/23X12:34:56''" by code_simp
  moreover have "getDigits (drop 11 ''2024/02/23X12:34:56'') 2 = 12" by code_simp
  ultimately have b: "lastHr (setRtcTime ''2024/02/23X12:34:56'' booted) = 12"
    by (simp add: setRtcTime_cases)
  have c: "lastHr booted = 0"
    by (simp add: booted_def setup_app_def power_on_def Let_def getHour_def setTime_def)
  from a c have "setRtcTime ''2024/02/23 12:34:56Z'' booted \<noteq> booted" by auto
  moreover from b c have "setRtcTime ''2024/02/23X12:34:56'' booted \<noteq> booted" by auto
  ultimately show ?thesis by simp
qed

subsection \<open>What each task changes\<close>

lemma backupTimeValue_frame:
  "rtc (backupTimeValue s) = rtc s"
  "lastSecond (backupTimeValue s) = lastSecond s"
  "lastHr (backupTimeValue s) = lastHr s"
  "secondCtr (backupTimeValue s) = secondCtr s"
  "updateRateSec (backupTimeValue s) = updateRateSec s"
  "setTimeData (backupTimeValue s) = setTimeData s"
  "dhtTimeCharacteristics (backupTimeValue s) = dhtTimeCharacteristics s"
  "dhtTemperatureFahrenheitCharacteristics (backupTimeValue s) = dhtTemperatureFahrenheitCharacteristics s"
  "dhtHumidityCharacteristics (backupTimeValue s) = dhtHumidityCharacteristics s"
  "dht_temperature (backupTimeValue s) = dht_temperature s"
  "dht_humidity (backupTimeValue s) = dht_humidity s"
  "sensorIsDHT11 (backupTimeValue s) = sensorIsDHT11 s"
  "spiffs_writable (backupTimeValue s) = spiffs_writable s"
  "trace (backupTimeValue s) = trace s @ [backup_event s]"
  by (simp_all add: backupTimeValue_def backup_event_def emit_def Let_def)

lemma setRtcTime_frame:
  "secondCtr (setRtcTime t s) = secondCtr s"
  "updateRateSec (setRtcTime t s) = updateRateSec s"
  "setTimeData (setRtcTime t s) = setTimeData s"
  "dhtTimeCharacteristics (setRtcTime t s) = dhtTimeCharacteristics s"
  "dhtTemperatureFahrenheitCharacteristics (setRtcTime t s) = dhtTemperatureFahrenheitCharacteristics s"
  "dhtHumidityCharacteristics (setRtcTime t s) = dhtHumidityCharacteristics s"
  "dht_temperature (setRtcTime t s) = dht_temperature s"
  "dht_humidity (setRtcTime t s) = dht_humidity s"
  "sensorIsDHT11 (setRtcTime t s) = sensorIsDHT11 s"
  "spiffs (setRtcTime t s) = spiffs s"
  "spiffs_writable (setRtcTime t s) = spiffs_writable s"
  "trace (setRtcTime t s) = trace s"
  by (simp_all add: setRtcTime_cases)

lemma setRtcTime_no_hour_edge:
  "accepted t \<Longrightarrow> getHour (rtc (setRtcTime t s)) = lastHr (setRtcTime t s)"
  by (simp add: setRtcTime_cases getHour_def setTime_def)

lemma sample_task_frame:
  "rtc (sample_task s) = rtc s"
  "lastSecond (sample_task s) = lastSecond s"
  "lastHr (sample_task s) = lastHr s"
  "secondCtr (sample_task s) = secondCtr s"
  "updateRateSec (sample_task s) = updateRateSec s"
  "setTimeData (sample_task s) = setTimeData s"
  "dhtTimeCharacteristics (sample_task s) = dhtTimeCharacteristics s"
  "dhtTemperatureFahrenheitCharacteristics (sample_task s) = sprintf_f (dht_temperature s)"
  "dhtHumidityCharacteristics (sample_task s) = sprintf_f (dht_humidity s)"
  "dht_temperature (sample_task s) = dht_temperature s"
  "dht_humidity (sample_task s) = dht_humidity s"
  "sensorIsDHT11 (sample_task s) = sensorIsDHT11 s"
  "spiffs (sample_task s) = spiffs s"
  "spiffs_writable (sample_task s) = spiffs_writable s"
  "trace (sample_task s) = trace s @ sample_events s"
  by (simp_all add: sample_task_def sample_events_def emit_def Let_def)

lemma hour_task_frame:
  "rtc (hour_task s) = rtc s"
  "lastSecond (hour_task s) = lastSecond s"
  "lastHr (hour_task s) = getHour (rtc s)"
  "secondCtr (hour_task s) = secondCtr s"
  "updateRateSec (hour_task s) = updateRateSec s"
  "setTimeData (hour_task s) = setTimeData s"
  "dhtTimeCharacteristics (hour_task s) = dhtTimeCharacteristics s"
  "dhtTemperatureFahrenheitCharacteristics (hour_task s) = dhtTemperatureFahrenheitCharacteristics s"
  "dhtHumidityCharacteristics (hour_task s) = dhtHumidityCharacteristics s"
  "dht_temperature (hour_task s) = dht_temperature s"
  "dht_humidity (hour_task s) = dht_humidity s"
  "sensorIsDHT11 (hour_task s) = sensorIsDHT11 s"
  "spiffs_writable (hour_task s) = spiffs_writable s"
  "trace (hour_task s) = trace s @ (if hour_edge s then [backup_event s] else [])"
  by (simp_all add: hour_task_def hour_edge_def Let_def backupTimeValue_frame backup_event_def)

lemma time_task_frame:
  "lastSecond (time_task s) = (if pending s \<and> accepted (setTimeData s) then getDigits (drop 17 (setTimeData s)) 2 else lastSecond s)"
  "secondCtr (time_task s) = secondCtr s"
  "updateRateSec (time_task s) = updateRateSec s"
  "dhtTemperatureFahrenheitCharacteristics (time_task s) = dhtTemperatureFahrenheitCharacteristics s"
  "dhtHumidityCharacteristics (time_task s) = dhtHumidityCharacteristics s"
  "dht_temperature (time_task s) = dht_temperature s"
  "dht_humidity (time_task s) = dht_humidity s"
  "sensorIsDHT11 (time_task s) = sensorIsDHT11 s"
  "spiffs_writable (time_task s) = spiffs_writable s"
  "rtc (time_task s) = (if pending s then rtc (setRtcTime (setTimeData s) s) else rtc s)"
  "lastHr (time_task s) = (if pending s then lastHr (setRtcTime (setTimeData s) s) else lastHr s)"
  "setTimeData (time_task s) = (if pending s then (setTimeData s)[0 := NUL] else setTimeData s)"
  "dhtTimeCharacteristics (time_task s) = (if pending s then dhtTimeCharacteristics s else getTime (rtc s))"
  "trace (time_task s) =
     trace s @ (if pending s then [backup_event (setRtcTime (setTimeData s) s)]
                else [TimeValue (getTime (rtc s))])"
  by (simp_all add: time_task_def pending_def Let_def backupTimeValue_frame setRtcTime_frame
        backup_event_def emit_def setRtcTime_cases)

subsection \<open>One iteration of loop\<close>

lemma word_mod_eq_0_iff_dvd:
  "(a mod b = 0) = (unat b dvd unat a)" for a b :: "32 word"
  by (metis unat_eq_zero unat_mod dvd_eq_mod_eq_0)

lemma loop_cases:
  "loop s =
     (if second_edge s
      then if updateRateSec s = 0 then Inl IntegerDivideByZero
           else Inr (hour_task
                  (if (secondCtr s + 1) mod updateRateSec s = 0
                   then sample_task (time_task (s\<lparr>lastSecond := getSecond (rtc s), secondCtr := secondCtr s + 1\<rparr>))
                   else time_task (s\<lparr>lastSecond := getSecond (rtc s), secondCtr := secondCtr s + 1\<rparr>)))
      else Inr (hour_task s))"
  by (simp add: loop_def second_edge_def cadence_task_def Let_def time_task_frame)

lemma loop_total:
  "updateRateSec s \<noteq> 0 \<Longrightarrow> \<exists>s'. loop s = Inr s'"
  by (simp add: loop_cases)

lemma is_sample_backup_event [simp]: "\<not> is_sample (backup_event s)"
  by (simp add: backup_event_def)

lemma is_backup_backup_event [simp]: "is_backup (backup_event s)"
  by (simp add: backup_event_def)

lemma filter_is_sample_sample_events [simp]: "filter is_sample (sample_events s) = sample_events s"
  by (simp add: sample_events_def)

lemma filter_is_backup_sample_events [simp]: "filter is_backup (sample_events s) = []"
  by (simp add: sample_events_def)

lemma sample_events_time_task [simp]: "sample_events (time_task s) = sample_events s"
  by (simp add: sample_events_def time_task_frame)

lemma sample_events_upd [simp]:
  "sample_events (s\<lparr>lastSecond := a, secondCtr := b\<rparr>) = sample_events s"
  by (simp add: sample_events_def)

lemma pending_upd [simp]:
  "pending (s\<lparr>lastSecond := a, secondCtr := b\<rparr>) = pending s"
  by (simp add: pending_def)

lemma hour_edge_sample_task [simp]: "hour_edge (sample_task s) = hour_edge s"
  by (simp add: hour_edge_def sample_task_frame)

lemma hour_edge_time_task:
  "hour_edge (time_task (s\<lparr>lastSecond := a, secondCtr := b\<rparr>)) =
     (\<not> (pending s \<and> accepted (setTimeData s)) \<and> hour_edge s)"
  by (simp add: hour_edge_def time_task_frame setRtcTime_cases getHour_def setTime_def)

text \<open>The events of one iteration.\<close>

lemma loop_new_events:
  assumes "loop s = Inr s'"
  shows "filter is_sample (new_events s s') =
           (if second_edge s \<and> (secondCtr s + 1) mod updateRateSec s = 0 then sample_events s else [])"
    and "checkpoints (new_events s s') =
           (if second_edge s \<and> pending s then 1 else 0) +
           (if hour_edge s \<and> \<not> (second_edge s \<and> pending s \<and> accepted (setTimeData s)) then 1 else 0)"
  using assms
  by (auto simp: loop_cases new_events_def checkpoints_def hour_task_frame sample_task_frame
        time_task_frame hour_edge_time_task split: if_splits)

subsection \<open>Applying a time string\<close>

lemma loop_applies:
  assumes "second_edge s" and "pending s" and "accepted (setTimeData s)" and "loop s = Inr s'"
  shows "rtc s' = rtc (setRtcTime (setTimeData s) s)"
    and "lastSecond s' = getSecond (rtc s')"
    and "lastHr s' = getHour (rtc s')"
  using assms
  by (auto simp: loop_cases hour_task_frame sample_task_frame time_task_frame setRtcTime_cases
        getSecond_def setTime_def split: if_splits)

text \<open>
  C4: \<^verbatim>\<open>setRtcTime\<close> applies the string 2024/02/23 12:34:56 and the clock then holds
  exactly year 2024, month 2, day 23, hour 12, minute 34, second 56. Whenever it applies a
  string, \<^verbatim>\<open>lastSecond\<close> and \<^verbatim>\<open>lastHr\<close> become the second and the hour of the new
  time, so that the clock shows no second-edge and no hour-edge against them: the hourly
  task that follows does nothing, the iteration that applied the string takes its one
  checkpoint and ends with no edge left.
\<close>

theorem setRtcTime_applies_and_resets_baseline:
  "rtc (setRtcTime ''2024/02/23 12:34:56'' s) =
     \<lparr>year = 2024, month = 2, day = 23, hour = 12, minute = 34, second = 56\<rparr> \<and>
   (accepted t \<longrightarrow>
      lastSecond (setRtcTime t s) = getDigits (drop 17 t) 2 \<and>
      lastHr (setRtcTime t s) = getDigits (drop 11 t) 2 \<and>
      getSecond (rtc (setRtcTime t s)) = lastSecond (setRtcTime t s) \<and>
      getHour (rtc (setRtcTime t s)) = lastHr (setRtcTime t s) \<and>
      hour_task (setRtcTime t s) = setRtcTime t s) \<and>
   (second_edge s \<and> pending s \<and> accepted (setTimeData s) \<and> loop s = Inr s' \<longrightarrow>
      rtc s' = rtc (setRtcTime (setTimeData s) s) \<and>
      \<not> second_edge s' \<and> \<not> hour_edge s' \<and>
      checkpoints (new_events s s') = 1)"
proof (intro conjI)
  show "rtc (setRtcTime ''2024/02/23 12:34:56'' s) =
     \<lparr>year = 2024, month = 2, day = 23, hour = 12, minute = 34, second = 56\<rparr>"
    by (simp add: setRtcTime_example setTime_def)
next
  show "accepted t \<longrightarrow>
      lastSecond (setRtcTime t s) = getDigits (drop 17 t) 2 \<and>
      lastHr (setRtcTime t s) = getDigits (drop 11 t) 2 \<and>
      getSecond (rtc (setRtcTime t s)) = lastSecond (setRtcTime t s) \<and>
      getHour (rtc (setRtcTime t s)) = lastHr (setRtcTime t s) \<and>
      hour_task (setRtcTime t s) = setRtcTime t s"
    by (simp add: setRtcTime_cases setTime_def getSecond_def getHour_def hour_task_def Let_def)
next
  show "second_edge s \<and> pending s \<and> accepted (setTimeData s) \<and> loop s = Inr s' \<longrightarrow>
      rtc s' = rtc (setRtcTime (setTimeData s) s) \<and>
      \<not> second_edge s' \<and> \<not> hour_edge s' \<and>
      checkpoints (new_events s s') = 1"
  proof
    assume a: "second_edge s \<and> pending s \<and> accepted (setTimeData s) \<and> loop s = Inr s'"
    then have l: "loop s = Inr s'" by simp
    from a loop_applies [of s s'] loop_new_events(2) [OF l]
    show "rtc s' = rtc (setRtcTime (setTimeData s) s) \<and>
      \<not> second_edge s' \<and> \<not> hour_edge s' \<and>
      checkpoints (new_events s s') = 1"
      by (simp add: second_edge_def hour_edge_def)
  qed
qed

theorem setRtcTime_applies_and_resets_baseline_witness:
  "accepted ''2024/02/23 12:34:56'' \<and>
   lastSecond (setRtcTime ''2024/02/23 12:34:56'' booted) = 56 \<and>
   lastHr (setRtcTime ''2024/02/23 12:34:56'' booted) = 12 \<and>
   getSecond (rtc (setRtcTime ''2024/02/23 12:34:56'' booted)) = 56 \<and>
   getHour (rtc (setRtcTime ''2024/02/23 12:34:56'' booted)) = 12 \<and>
   second_edge staged_valid \<and> pending staged_valid \<and> accepted (setTimeData staged_valid) \<and>
   loop staged_valid = Inr (projr (loop staged_valid)) \<and>
   rtc (projr (loop staged_valid)) = setTime 56 34 12 23 2 2024 \<and>
   \<not> second_edge (projr (loop staged_valid)) \<and>
   \<not> hour_edge (projr (loop staged_valid)) \<and>
   checkpoints (new_events staged_valid (projr (loop staged_valid))) = 1"
proof -
  have h: "accepted ''2024/02/23 12:34:56''" by code_simp
  have d: "getDigits (drop 17 ''2024/02/23 12:34:56'') 2 = 56"
    "getDigits (drop 11 ''2024/02/23 12:34:56'') 2 = 12"
    by code_simp+
  have "updateRateSec staged_valid \<noteq> 0" by code_simp
  then have l: "loop staged_valid = Inr (projr (loop staged_valid))"
    using loop_total [of staged_valid] by auto
  have e: "second_edge staged_valid" "pending staged_valid" "accepted (setTimeData staged_valid)"
    "rtc (setRtcTime (setTimeData staged_valid) staged_valid) = setTime 56 34 12 23 2 2024"
    by code_simp+
  have 1: "lastSecond (setRtcTime ''2024/02/23 12:34:56'' booted) = 56 \<and>
   lastHr (setRtcTime ''2024/02/23 12:34:56'' booted) = 12 \<and>
   getSecond (rtc (setRtcTime ''2024/02/23 12:34:56'' booted)) = 56 \<and>
   getHour (rtc (setRtcTime ''2024/02/23 12:34:56'' booted)) = 12"
    using h d setRtcTime_applies_and_resets_baseline [of booted "''2024/02/23 12:34:56''"]
    by (simp add: getSecond_def getHour_def)
  have 2: "rtc (projr (loop staged_valid)) = setTime 56 34 12 23 2 2024 \<and>
   \<not> second_edge (projr (loop staged_valid)) \<and>
   \<not> hour_edge (projr (loop staged_valid)) \<and>
   checkpoints (new_events staged_valid (projr (loop staged_valid))) = 1"
    using l e setRtcTime_applies_and_resets_baseline
      [of staged_valid _ "projr (loop staged_valid)"]
    by simp
  show ?thesis using h l e(1-3) 1 2 by simp
qed

subsection \<open>The loop keeps running\<close>

lemma clamp_word_range:
  assumes "2 \<le> x" and "x \<le> 60"
  shows "2 \<le> uint (word_of_int x :: 32 word) \<and> uint (word_of_int x :: 32 word) \<le> 60"
proof -
  have "uint (word_of_int x :: 32 word) = x"
    using assms by (simp add: uint_word_of_int take_bit_int_eq_self)
  with assms show ?thesis by simp
qed

lemma setup_app_rate_range:
  "2 \<le> uint (updateRateSec (setup_app mounted tmpbuf s0)) \<and>
   uint (updateRateSec (setup_app mounted tmpbuf s0)) \<le> 60"
proof (cases mounted)
  case False
  then show ?thesis by (simp add: setup_app_def Let_def)
next
  case True
  define x2 where "x2 = (let x0 = atoi (readKey (spiffs s0) CONFIGFN ''UPDATERATE=''
                                    (readKey (spiffs s0) CONFIGFN ''SENSOR='' tmpbuf 15) 15);
                              x1 = (if x0 < 2 then 2 else x0)
                          in if x1 > 60 then 60 else x1)"
  have r: "2 \<le> x2 \<and> x2 \<le> 60" by (simp add: x2_def Let_def)
  have "updateRateSec (setup_app mounted tmpbuf s0) = word_of_int x2"
    using True by (simp add: setup_app_def Let_def setRtcTime_frame x2_def)
  with clamp_word_range [of x2] r show ?thesis by simp
qed

lemma setup_app_rate_nonzero: "updateRateSec (setup_app mounted tmpbuf s0) \<noteq> 0"
proof
  assume "updateRateSec (setup_app mounted tmpbuf s0) = 0"
  then have "uint (updateRateSec (setup_app mounted tmpbuf s0)) = 0" by simp
  with setup_app_rate_range [of mounted tmpbuf s0] show False by simp
qed

lemma loop_keeps_rate: "loop s = Inr s' \<Longrightarrow> updateRateSec s' = updateRateSec s"
  by (auto simp: loop_cases hour_task_frame sample_task_frame time_task_frame split: if_splits)

lemma step_keeps_running:
  assumes "updateRateSec s \<noteq> 0"
  shows "\<exists>s'. step i s = Inr s' \<and> updateRateSec s' = updateRateSec s"
proof (cases i)
  case Iterate
  with assms loop_total [of s] loop_keeps_rate [of s] show ?thesis by auto
qed (simp_all add: client_write_def onWrite_def)

lemma run_keeps_running:
  "updateRateSec s \<noteq> 0 \<Longrightarrow> \<exists>s'. run ins s = Inr s'"
proof (induction ins arbitrary: s)
  case Nil
  show ?case by simp
next
  case (Cons i ins)
  from step_keeps_running [OF Cons.prems, of i]
  obtain s1 where "step i s = Inr s1" and "updateRateSec s1 \<noteq> 0"
    using Cons.prems by auto
  with Cons.IH [of s1] show ?case by simp
qed

text \<open>
  C9: whatever the files in flash are (a config file or none, a backup file or none),
  whether the file system mounts, whatever strings clients write, whenever the sensor
  fails and whenever the flash cannot be written, every iteration of \<^verbatim>\<open>loop\<close> after
  \<^verbatim>\<open>setup\<close> completes and the next one begins: no run ends in an error. The only
  operation of \<^verbatim>\<open>loop\<close> that can stop the program is the remainder by
  \<^verbatim>\<open>updateRateSec\<close>, which \<^verbatim>\<open>setup\<close> leaves between 2 and 60.
\<close>

theorem loop_never_stops:
  "\<exists>s'. run ins (setup_app mounted tmpbuf (power_on files writable t h)) = Inr s'"
  by (rule run_keeps_running) (rule setup_app_rate_nonzero)

text \<open>The example states are states of runs.\<close>

lemma example_states_reached:
  "run [ClientWrite ''2024-02-23 12:34:56'', ClockAdvance (setTime 1 0 0 1 1 2024)] booted
     = Inr staged_invalid"
  "run [ClientWrite ''2024/02/23 12:34:56'', ClockAdvance (setTime 1 0 1 1 1 2024)] booted
     = Inr staged_valid"
  "run [ClockAdvance (setTime 1 0 0 1 1 2024), Iterate,
        ClockAdvance (setTime 2 0 0 1 1 2024), Iterate,
        SensorReads NaN NaN,
        ClockAdvance (setTime 3 0 0 1 1 2024), Iterate,
        ClockAdvance (setTime 4 0 0 1 1 2024)] booted_rate2 = Inr before_fault"
  "run [ClockAdvance (setTime 1 0 0 1 1 2024), Iterate,
        ClockAdvance (setTime 2 0 0 1 1 2024), Iterate,
        ClockAdvance (setTime 3 0 0 1 1 2024), Iterate,
        ClockAdvance (setTime 4 0 0 1 1 2024), Iterate,
        ClockAdvance (setTime 5 0 0 1 1 2024)] booted_rate5 = Inr fifth_second"
proof -
  show "run [ClientWrite ''2024-02-23 12:34:56'', ClockAdvance (setTime 1 0 0 1 1 2024)] booted
     = Inr staged_invalid"
    by (simp add: staged_invalid_def)
  show "run [ClientWrite ''2024/02/23 12:34:56'', ClockAdvance (setTime 1 0 1 1 1 2024)] booted
     = Inr staged_valid"
    by (simp add: staged_valid_def)
  have r: "run ins s = Inr (projr (run ins s))" if "updateRateSec s \<noteq> 0" for ins s
    using run_keeps_running [OF that, of ins] by auto
  have "updateRateSec booted_rate2 \<noteq> 0"
    unfolding booted_rate2_def by (rule setup_app_rate_nonzero)
  then show "run [ClockAdvance (setTime 1 0 0 1 1 2024), Iterate,
        ClockAdvance (setTime 2 0 0 1 1 2024), Iterate,
        SensorReads NaN NaN,
        ClockAdvance (setTime 3 0 0 1 1 2024), Iterate,
        ClockAdvance (setTime 4 0 0 1 1 2024)] booted_rate2 = Inr before_fault"
    unfolding before_fault_def by (rule r)
  have "updateRateSec booted_rate5 \<noteq> 0"
    unfolding booted_rate5_def by (rule setup_app_rate_nonzero)
  then show "run [ClockAdvance (setTime 1 0 0 1 1 2024), Iterate,
        ClockAdvance (setTime 2 0 0 1 1 2024), Iterate,
        ClockAdvance (setTime 3 0 0 1 1 2024), Iterate,
        ClockAdvance (setTime 4 0 0 1 1 2024), Iterate,
        ClockAdvance (setTime 5 0 0 1 1 2024)] booted_rate5 = Inr fifth_second"
    unfolding fifth_second_def by (rule r)
qed

subsection \<open>The pending time string\<close>

lemma strncpy_twice: "strncpy (strncpy dst a n) b n = strncpy dst b n"
  by (simp add: strncpy_def)

lemma client_write_twice: "client_write v2 (client_write v1 s) = client_write v2 s"
  by (simp add: client_write_def onWrite_def strncpy_twice)

lemma not_pending_cleared: "\<not> pending (s\<lparr>setTimeData := (setTimeData s)[0 := NUL]\<rparr>)"
  by (cases "setTimeData s") (simp_all add: pending_def strlen_def cstr_def)

lemma loop_consumes:
  assumes "second_edge s" and "loop s = Inr s'"
  shows "\<not> pending s'"
proof -
  have "strlen ((setTimeData s)[0 := NUL]) = 0"
    by (cases "setTimeData s") (simp_all add: strlen_def cstr_def)
  with assms show ?thesis
    by (auto simp: loop_cases pending_def hour_task_frame sample_task_frame time_task_frame
          split: if_splits)
qed

lemma NUL_notin_cstr: "NUL \<notin> set (cstr v)"
  by (auto simp: cstr_def dest: set_takeWhileD)

lemma slot_after_write:
  assumes "length buf = 32" and "buf ! 31 = NUL"
  shows "length (strncpy buf v 31) = 32" and "strncpy buf v 31 ! 31 = NUL"
    and "cstr (strncpy buf v 31) = take 31 (cstr v)"
proof -
  have "buf ! 31 # drop (Suc 31) buf = drop 31 buf"
    using assms by (intro Cons_nth_drop_Suc) simp
  then have d: "drop 31 buf = [NUL]"
    using assms by simp
  have t: "take 31 (cstr v @ replicate 31 NUL) =
           take 31 (cstr v) @ replicate (31 - length (cstr v)) NUL"
    by simp
  have l: "length (take 31 (cstr v @ replicate 31 NUL)) = 31" by simp
  show "length (strncpy buf v 31) = 32"
    using assms by (simp add: strncpy_def)
  show "strncpy buf v 31 ! 31 = NUL"
    unfolding strncpy_def d using l by (metis nth_append_length)
  have "NUL \<notin> set (take 31 (cstr v))"
    using NUL_notin_cstr [of v] by (auto dest: in_set_takeD)
  then have "cstr ((take 31 (cstr v)) @ NUL # rest) = take 31 (cstr v)" for rest
    by (rule cstr_no_NUL)
  moreover have "replicate (31 - length (cstr v)) NUL @ [NUL] = NUL # replicate (31 - length (cstr v)) NUL"
    by (simp add: replicate_append_same)
  ultimately show "cstr (strncpy buf v 31) = take 31 (cstr v)"
    unfolding strncpy_def d t by simp
qed

lemma loop_keeps_slot_shape:
  assumes "loop s = Inr s'" and "length (setTimeData s) = 32" and "setTimeData s ! 31 = NUL"
  shows "length (setTimeData s') = 32 \<and> setTimeData s' ! 31 = NUL"
  using assms
  by (auto simp: loop_cases hour_task_frame sample_task_frame time_task_frame split: if_splits)

lemma step_keeps_slot_shape:
  assumes "step i s = Inr s'" and "length (setTimeData s) = 32" and "setTimeData s ! 31 = NUL"
  shows "length (setTimeData s') = 32 \<and> setTimeData s' ! 31 = NUL"
proof (cases i)
  case Iterate
  with assms loop_keeps_slot_shape [of s s'] show ?thesis by simp
next
  case (ClientWrite v)
  with assms slot_after_write(1,2) [of "setTimeData s" v] show ?thesis
    by (auto simp: client_write_def onWrite_def)
qed (use assms in auto)

lemma run_keeps_slot_shape:
  "run ins s = Inr s' \<Longrightarrow> length (setTimeData s) = 32 \<Longrightarrow> setTimeData s ! 31 = NUL \<Longrightarrow>
   length (setTimeData s') = 32 \<and> setTimeData s' ! 31 = NUL"
proof (induction ins arbitrary: s)
  case Nil
  then show ?case by simp
next
  case (Cons i ins)
  then obtain s1 where s1: "step i s = Inr s1" and r: "run ins s1 = Inr s'"
    by (auto split: sum.splits)
  from step_keeps_slot_shape [OF s1 Cons.prems(2,3)] Cons.IH [OF r] show ?case by simp
qed

lemma slot_shape_reachable:
  assumes "run ins (setup_app mounted tmpbuf (power_on files writable t h)) = Inr s"
  shows "length (setTimeData s) = 32 \<and> setTimeData s ! 31 = NUL"
proof -
  have "setTimeData (setup_app mounted tmpbuf (power_on files writable t h)) = replicate 32 NUL"
    by (simp add: setup_app_def Let_def setRtcTime_frame power_on_def)
  then show ?thesis
    using run_keeps_slot_shape [OF assms] by simp
qed

text \<open>
  C6: \<^verbatim>\<open>setTimeData\<close> is one slot. Two writes before any consumption leave the state
  that the second write alone leaves, so only the second value can be applied. In every
  state the program reaches, the slot after a write holds the value written (its first 31
  bytes). On a second-edge with a pending string, the iteration applies the string in the
  slot and leaves the slot empty.
\<close>

theorem pending_time_last_write_wins:
  "client_write v2 (client_write v1 s) = client_write v2 s \<and>
   (run ins (setup_app mounted tmpbuf (power_on files writable t h)) = Inr s0 \<longrightarrow>
      cstr (setTimeData (client_write v s0)) = take 31 (cstr v)) \<and>
   (second_edge s \<and> pending s \<and> loop s = Inr s' \<longrightarrow>
      \<not> pending s' \<and> rtc s' = rtc (setRtcTime (setTimeData s) s))"
proof -
  have "rtc s' = rtc (setRtcTime (setTimeData s) s)"
    if "second_edge s" "pending s" "loop s = Inr s'"
    using that
    by (auto simp: loop_cases hour_task_frame sample_task_frame time_task_frame setRtcTime_cases
          split: if_splits)
  moreover have "cstr (setTimeData (client_write v s0)) = take 31 (cstr v)"
    if "run ins (setup_app mounted tmpbuf (power_on files writable t h)) = Inr s0"
    using slot_shape_reachable [OF that] slot_after_write(3) [of "setTimeData s0" v]
    by (simp add: client_write_def onWrite_def)
  ultimately show ?thesis
    using loop_consumes [of s s'] client_write_twice [of v2 v1 s] by blast
qed

theorem pending_time_last_write_wins_witness:
  "run [ClientWrite ''2024/02/23 12:34:56'', ClockAdvance (setTime 1 0 1 1 1 2024)]
     (setup_app False (replicate 32 NUL) (power_on Map.empty True (Finite ''72.5'') (Finite ''40'')))
     = Inr staged_valid \<and>
   cstr (setTimeData (client_write ''2025/01/01 00:00:00'' staged_valid)) = ''2025/01/01 00:00:00'' \<and>
   second_edge staged_valid \<and> pending staged_valid \<and>
   loop staged_valid = Inr (projr (loop staged_valid)) \<and>
   \<not> pending (projr (loop staged_valid)) \<and>
   rtc (projr (loop staged_valid)) = setTime 56 34 12 23 2 2024"
proof -
  have r: "run [ClientWrite ''2024/02/23 12:34:56'', ClockAdvance (setTime 1 0 1 1 1 2024)]
     (setup_app False (replicate 32 NUL) (power_on Map.empty True (Finite ''72.5'') (Finite ''40'')))
     = Inr staged_valid"
    by (simp add: staged_valid_def booted_def)
  have "updateRateSec staged_valid \<noteq> 0" by code_simp
  then have h: "loop staged_valid = Inr (projr (loop staged_valid))"
    using loop_total [of staged_valid] by auto
  have e: "second_edge staged_valid" "pending staged_valid"
    "rtc (setRtcTime (setTimeData staged_valid) staged_valid) = setTime 56 34 12 23 2 2024"
    "take 31 (cstr ''2025/01/01 00:00:00'') = ''2025/01/01 00:00:00''"
    by code_simp+
  show ?thesis
    using r h e
      pending_time_last_write_wins [of _ _ staged_valid
        "[ClientWrite ''2024/02/23 12:34:56'', ClockAdvance (setTime 1 0 1 1 1 2024)]"
        False "replicate 32 NUL" Map.empty True "Finite ''72.5''" "Finite ''40''" staged_valid
        "''2025/01/01 00:00:00''" "projr (loop staged_valid)"]
    by simp
qed

subsection \<open>The sensor sampler\<close>

text \<open>
  C5: with \<^verbatim>\<open>updateRateSec\<close> 5 every iteration completes, and it samples the sensor
  exactly when it sees a second-edge and the counter, after its increment, is a multiple of
  5. A sample sets the temperature value and notifies, then sets the humidity value and
  notifies; no other iteration does any of the four.
\<close>

theorem sampler_every_fifth_second:
  assumes "updateRateSec s = 5"
  shows "\<exists>s'. loop s = Inr s' \<and>
           filter is_sample (new_events s s') =
             (if second_edge s \<and> 5 dvd unat (secondCtr s + 1)
              then [TempValue (sprintf_f (dht_temperature s)), TempNotify,
                    HumValue (sprintf_f (dht_humidity s)), HumNotify]
              else []) \<and>
           (second_edge s \<and> 5 dvd unat (secondCtr s + 1) \<longrightarrow>
              dhtTemperatureFahrenheitCharacteristics s' = sprintf_f (dht_temperature s) \<and>
              dhtHumidityCharacteristics s' = sprintf_f (dht_humidity s))"
proof -
  from assms have "updateRateSec s \<noteq> 0" by simp
  then obtain s' where l: "loop s = Inr s'" using loop_total by blast
  have m: "((secondCtr s + 1) mod updateRateSec s = 0) = (5 dvd unat (secondCtr s + 1))"
    using assms by (simp add: word_mod_eq_0_iff_dvd)
  have "filter is_sample (new_events s s') =
          (if second_edge s \<and> 5 dvd unat (secondCtr s + 1) then sample_events s else [])"
    using loop_new_events(1) [OF l] m by simp
  moreover have "dhtTemperatureFahrenheitCharacteristics s' = sprintf_f (dht_temperature s) \<and>
                 dhtHumidityCharacteristics s' = sprintf_f (dht_humidity s)"
    if "second_edge s" "5 dvd unat (secondCtr s + 1)"
    using l that m assms
    by (auto simp: loop_cases hour_task_frame sample_task_frame time_task_frame)
  ultimately show ?thesis using l by (simp add: sample_events_def)
qed

theorem sampler_every_fifth_second_witness:
  "updateRateSec fifth_second = 5 \<and>
   (\<exists>s'. loop fifth_second = Inr s' \<and>
      filter is_sample (new_events fifth_second s') =
        [TempValue ''72.5'', TempNotify, HumValue ''40'', HumNotify] \<and>
      dhtTemperatureFahrenheitCharacteristics s' = ''72.5'' \<and>
      dhtHumidityCharacteristics s' = ''40'')"
proof -
  have h: "updateRateSec fifth_second = 5" by code_simp
  have e: "second_edge fifth_second" "5 dvd unat (secondCtr fifth_second + 1)"
    "sprintf_f (dht_temperature fifth_second) = ''72.5''"
    "sprintf_f (dht_humidity fifth_second) = ''40''"
    by code_simp+
  show ?thesis using h e sampler_every_fifth_second [OF h] by auto
qed

text \<open>
  C8 (amended): on a cadence tick the iteration prints whatever the driver returned, a
  failed read (NaN) included, sets both characteristic values to the printed text and
  notifies each; the sketch keeps no validity flag. In every other iteration both values
  stay and nothing is notified, so the next read is on the next cadence tick.
\<close>

theorem sample_overwrites_on_cadence_tick:
  assumes "loop s = Inr s'"
  shows "(second_edge s \<and> (secondCtr s + 1) mod updateRateSec s = 0 \<longrightarrow>
            dhtTemperatureFahrenheitCharacteristics s' = sprintf_f (dht_temperature s) \<and>
            dhtHumidityCharacteristics s' = sprintf_f (dht_humidity s) \<and>
            filter is_sample (new_events s s') =
              [TempValue (sprintf_f (dht_temperature s)), TempNotify,
               HumValue (sprintf_f (dht_humidity s)), HumNotify]) \<and>
         (\<not> (second_edge s \<and> (secondCtr s + 1) mod updateRateSec s = 0) \<longrightarrow>
            dhtTemperatureFahrenheitCharacteristics s' = dhtTemperatureFahrenheitCharacteristics s \<and>
            dhtHumidityCharacteristics s' = dhtHumidityCharacteristics s \<and>
            filter is_sample (new_events s s') = [])"
proof -
  have "dhtTemperatureFahrenheitCharacteristics s' =
          (if second_edge s \<and> (secondCtr s + 1) mod updateRateSec s = 0
           then sprintf_f (dht_temperature s) else dhtTemperatureFahrenheitCharacteristics s)"
    using assms
    by (auto simp: loop_cases hour_task_frame sample_task_frame time_task_frame split: if_splits)
  moreover have "dhtHumidityCharacteristics s' =
          (if second_edge s \<and> (secondCtr s + 1) mod updateRateSec s = 0
           then sprintf_f (dht_humidity s) else dhtHumidityCharacteristics s)"
    using assms
    by (auto simp: loop_cases hour_task_frame sample_task_frame time_task_frame split: if_splits)
  ultimately show ?thesis
    using loop_new_events(1) [OF assms] by (simp add: sample_events_def)
qed

theorem sample_overwrites_on_cadence_tick_witness:
  "loop before_fault = Inr (projr (loop before_fault)) \<and>
   dht_temperature before_fault = NaN \<and>
   dhtTemperatureFahrenheitCharacteristics (projr (loop before_fault)) = ''nan'' \<and>
   dhtHumidityCharacteristics (projr (loop before_fault)) = ''nan''"
proof -
  have "updateRateSec before_fault \<noteq> 0" by code_simp
  then have h: "loop before_fault = Inr (projr (loop before_fault))"
    using loop_total [of before_fault] by auto
  have e: "second_edge before_fault"
    "(secondCtr before_fault + 1) mod updateRateSec before_fault = 0"
    "dht_temperature before_fault = NaN" "dht_humidity before_fault = NaN"
    by code_simp+
  show ?thesis
    using h e sample_overwrites_on_cadence_tick [OF h] by simp
qed

text \<open>
  C8 as stated fails: the sensor has failed, the values exposed are 72.5 and 40, and the
  iteration of the cadence tick replaces both by \<open>nan\<close> and notifies both.
\<close>

theorem sensor_fault_replaces_values_counterexample:
  "dht_temperature before_fault = NaN \<and>
   dht_humidity before_fault = NaN \<and>
   second_edge before_fault \<and>
   (secondCtr before_fault + 1) mod updateRateSec before_fault = 0 \<and>
   dhtTemperatureFahrenheitCharacteristics before_fault = ''72.5'' \<and>
   dhtHumidityCharacteristics before_fault = ''40'' \<and>
   dhtTemperatureFahrenheitCharacteristics (projr (loop before_fault)) = ''nan'' \<and>
   dhtHumidityCharacteristics (projr (loop before_fault)) = ''nan'' \<and>
   new_events before_fault (projr (loop before_fault)) =
     [TimeValue ''2024/01/01 00:00:04'', TempValue ''nan'', TempNotify, HumValue ''nan'', HumNotify]"
  by code_simp

subsection \<open>Checkpoints\<close>




subsection \<open>A rejected time string\<close>

lemma backupTimeValue_spiffs:
  "spiffs (backupTimeValue s) =
     (if spiffs_writable s then (spiffs s)(BACKUPFN \<mapsto> ''TIME='' @ getTime (rtc s) @ [CR, LF])
      else spiffs s)"
  "tempIsF (backupTimeValue s) = tempIsF s"
  "bleServerName (backupTimeValue s) = bleServerName s"
  by (simp_all add: backupTimeValue_def emit_def Let_def)

lemma sample_task_config:
  "tempIsF (sample_task s) = tempIsF s"
  "bleServerName (sample_task s) = bleServerName s"
  by (simp_all add: sample_task_def emit_def Let_def)

lemma is_time_value_backup_event [simp]: "backup_event s \<noteq> TimeValue v"
  by (simp add: backup_event_def)

lemma time_value_notin_sample_events [simp]: "TimeValue v \<notin> set (sample_events s)"
  by (simp add: sample_events_def)

lemma time_task_rejected:
  assumes "pending s" and "\<not> accepted (setTimeData s)"
  shows "rtc (time_task s) = rtc s"
    and "lastHr (time_task s) = lastHr s"
    and "lastSecond (time_task s) = lastSecond s"
    and "dhtTimeCharacteristics (time_task s) = dhtTimeCharacteristics s"
    and "setTimeData (time_task s) = (setTimeData s)[0 := NUL]"
    and "tempIsF (time_task s) = tempIsF s"
    and "bleServerName (time_task s) = bleServerName s"
    and "spiffs (time_task s) =
           (if spiffs_writable s
            then (spiffs s)(BACKUPFN \<mapsto> ''TIME='' @ getTime (rtc s) @ [CR, LF]) else spiffs s)"
    and "trace (time_task s) = trace s @ [backup_event s]"
  using assms
  by (simp_all add: time_task_def pending_def Let_def setRtcTime_cases backupTimeValue_frame
        backupTimeValue_spiffs backup_event_def)

lemma hour_task_config:
  "tempIsF (hour_task s) = tempIsF s"
  "bleServerName (hour_task s) = bleServerName s"
  "spiffs (hour_task s) =
     (if hour_edge s \<and> spiffs_writable s
      then (spiffs s)(BACKUPFN \<mapsto> ''TIME='' @ getTime (rtc s) @ [CR, LF]) else spiffs s)"
  by (simp_all add: hour_task_def hour_edge_def Let_def backupTimeValue_spiffs)

lemma backup_event_cong:
  "rtc a = rtc b \<Longrightarrow> spiffs_writable a = spiffs_writable b \<Longrightarrow> backup_event a = backup_event b"
  by (simp add: backup_event_def)

lemma rejected_string_iteration:
  assumes "second_edge s" and "pending s" and "\<not> accepted (setTimeData s)"
    and "loop s = Inr s'"
  shows "dhtTimeCharacteristics s' = dhtTimeCharacteristics s"
    and "rtc s' = rtc s"
    and "setTimeData s' = (setTimeData s)[0 := NUL]"
    and "secondCtr s' = secondCtr s + 1"
    and "lastSecond s' = getSecond (rtc s)"
    and "lastHr s' = getHour (rtc s)"
    and "updateRateSec s' = updateRateSec s"
    and "sensorIsDHT11 s' = sensorIsDHT11 s"
    and "tempIsF s' = tempIsF s"
    and "bleServerName s' = bleServerName s"
    and "spiffs s' =
           (if spiffs_writable s
            then (spiffs s)(BACKUPFN \<mapsto> ''TIME='' @ getTime (rtc s) @ [CR, LF]) else spiffs s)"
    and "new_events s s' =
           [backup_event s] @
           (if (secondCtr s + 1) mod updateRateSec s = 0 then sample_events s else []) @
           (if hour_edge s then [backup_event s] else [])"
proof -
  let ?s0 = "s\<lparr>lastSecond := getSecond (rtc s), secondCtr := secondCtr s + 1\<rparr>"
  have p: "pending ?s0" "\<not> accepted (setTimeData ?s0)"
    using assms by (simp_all add: pending_def)
  note t = time_task_rejected [OF p, simplified]
  have s': "s' = hour_task (if (secondCtr s + 1) mod updateRateSec s = 0
                            then sample_task (time_task ?s0) else time_task ?s0)"
    using assms by (simp add: loop_cases split: if_splits)
  have he: "hour_edge (time_task ?s0) = hour_edge s"
    by (simp add: hour_edge_def t)
  have be: "backup_event (time_task ?s0) = backup_event s" "backup_event ?s0 = backup_event s"
    "backup_event (sample_task (time_task ?s0)) = backup_event s"
    by (simp_all add: backup_event_def t sample_task_frame time_task_frame(2-9))
  show "dhtTimeCharacteristics s' = dhtTimeCharacteristics s"
    by (simp add: s' hour_task_frame sample_task_frame t)
  show "rtc s' = rtc s"
    by (simp add: s' hour_task_frame sample_task_frame t)
  show "setTimeData s' = (setTimeData s)[0 := NUL]"
    by (simp add: s' hour_task_frame sample_task_frame t)
  show "secondCtr s' = secondCtr s + 1"
    by (simp add: s' hour_task_frame sample_task_frame time_task_frame(2-9))
  show "lastSecond s' = getSecond (rtc s)"
    by (simp add: s' hour_task_frame sample_task_frame t)
  show "lastHr s' = getHour (rtc s)"
    by (simp add: s' hour_task_frame sample_task_frame t)
  show "updateRateSec s' = updateRateSec s"
    by (simp add: s' hour_task_frame sample_task_frame time_task_frame(2-9))
  show "sensorIsDHT11 s' = sensorIsDHT11 s"
    by (simp add: s' hour_task_frame sample_task_frame time_task_frame(2-9))
  show "tempIsF s' = tempIsF s"
    by (simp add: s' hour_task_config sample_task_config t)
  show "bleServerName s' = bleServerName s"
    by (simp add: s' hour_task_config sample_task_config t)
  show "spiffs s' =
           (if spiffs_writable s
            then (spiffs s)(BACKUPFN \<mapsto> ''TIME='' @ getTime (rtc s) @ [CR, LF]) else spiffs s)"
    by (simp add: s' hour_task_config sample_task_frame time_task_frame(2-9) t he)
  show "new_events s s' =
           [backup_event s] @
           (if (secondCtr s + 1) mod updateRateSec s = 0 then sample_events s else []) @
           (if hour_edge s then [backup_event s] else [])"
    by (simp add: s' new_events_def hour_task_frame sample_task_frame t he be)
qed

text \<open>
  C10 (amended): on a second-edge that consumes a pending time string which is not
  accepted, the value of the time characteristic is not refreshed and the clock is not
  changed; the slot is cleared, \<^verbatim>\<open>secondCtr\<close> is incremented, \<^verbatim>\<open>lastSecond\<close> becomes
  the current second, a checkpoint is taken (the backup file is rewritten when the flash
  can be written), and the cadence branch and the hourly task run as in any iteration.
  The configuration is unchanged.
\<close>

theorem rejected_time_string_frame:
  assumes "second_edge s" and "pending s" and "\<not> accepted (setTimeData s)"
    and "loop s = Inr s'"
  shows "dhtTimeCharacteristics s' = dhtTimeCharacteristics s \<and>
         (\<forall>v. TimeValue v \<notin> set (new_events s s')) \<and>
         rtc s' = rtc s \<and>
         setTimeData s' = (setTimeData s)[0 := NUL] \<and>
         \<not> pending s' \<and>
         secondCtr s' = secondCtr s + 1 \<and>
         lastSecond s' = getSecond (rtc s) \<and>
         lastHr s' = getHour (rtc s) \<and>
         updateRateSec s' = updateRateSec s \<and>
         sensorIsDHT11 s' = sensorIsDHT11 s \<and>
         tempIsF s' = tempIsF s \<and>
         bleServerName s' = bleServerName s \<and>
         spiffs s' =
           (if spiffs_writable s
            then (spiffs s)(BACKUPFN \<mapsto> ''TIME='' @ getTime (rtc s) @ [CR, LF]) else spiffs s) \<and>
         new_events s s' =
           [backup_event s] @
           (if (secondCtr s + 1) mod updateRateSec s = 0 then sample_events s else []) @
           (if hour_edge s then [backup_event s] else [])"
proof -
  note r = rejected_string_iteration [OF assms]
  have "\<forall>v. TimeValue v \<notin> set (new_events s s')"
    by (simp add: r(12) backup_event_def)
  moreover have "\<not> pending s'"
    using loop_consumes [OF assms(1) assms(4)] .
  ultimately show ?thesis
    using r by blast
qed

theorem rejected_time_string_frame_witness:
  "second_edge staged_invalid \<and> pending staged_invalid \<and>
   \<not> accepted (setTimeData staged_invalid) \<and>
   loop staged_invalid = Inr (projr (loop staged_invalid)) \<and>
   dhtTimeCharacteristics (projr (loop staged_invalid)) = ''2024-02-23 12:34:56'' \<and>
   rtc (projr (loop staged_invalid)) = setTime 1 0 0 1 1 2024 \<and>
   secondCtr (projr (loop staged_invalid)) = 1"
proof -
  have "updateRateSec staged_invalid \<noteq> 0" by code_simp
  then have h: "loop staged_invalid = Inr (projr (loop staged_invalid))"
    using loop_total [of staged_invalid] by auto
  have e: "second_edge staged_invalid" "pending staged_invalid"
    "\<not> accepted (setTimeData staged_invalid)"
    by code_simp+
  have v: "dhtTimeCharacteristics staged_invalid = ''2024-02-23 12:34:56''"
    "rtc staged_invalid = setTime 1 0 0 1 1 2024" "secondCtr staged_invalid = 0"
    by code_simp+
  show ?thesis
    using h e v rejected_time_string_frame [OF e h] by simp
qed

text \<open>
  C10 as stated fails: beside the slot and the counter, the iteration changes
  \<^verbatim>\<open>lastSecond\<close> and writes the backup file.
\<close>

theorem rejected_time_string_counterexample:
  "second_edge staged_invalid \<and> pending staged_invalid \<and>
   \<not> accepted (setTimeData staged_invalid) \<and>
   lastSecond staged_invalid = 0 \<and>
   lastSecond (projr (loop staged_invalid)) = 1 \<and>
   spiffs staged_invalid BACKUPFN = None \<and>
   spiffs (projr (loop staged_invalid)) BACKUPFN = Some (''TIME=2024/01/01 00:00:01'' @ [CR, LF])"
  by code_simp

subsection \<open>The cadence after a start\<close>

text \<open>
  C3, at the failing input: the config file exists and has no \<^verbatim>\<open>UPDATERATE\<close> line.
  The lookup returns the empty string; \<^verbatim>\<open>atoi\<close> of it is 0, which the clamp raises to
  2, and that overwrites the default of 10.
\<close>

theorem missing_rate_gives_two:
  "flash_without_rate CONFIGFN \<noteq> None \<and>
   cstr (readKey flash_without_rate CONFIGFN ''UPDATERATE='' (replicate 32 NUL) 15) = [] \<and>
   updateRateSec (setup_app True (replicate 32 NUL)
      (power_on flash_without_rate True (Finite ''72.5'') (Finite ''40''))) = 2"
  by code_simp

subsection \<open>The config reader\<close>

lemma lt_zero_never [simp]: "\<not> lt_zero c"
  by (simp add: lt_zero_def plain_char_is_signed_def)

lemma readln_from_line:
  assumes "LF \<notin> set l" and "CR \<notin> set l" and "int (length buf + length l) < maxlen - 1"
  shows "readln_from buf (l @ LF # rest) maxlen = (True, buf @ l, rest)"
  using assms
proof (induction l arbitrary: buf)
  case Nil
  then show ?case by (simp add: LF_def CR_def)
next
  case (Cons c l)
  from Cons.prems have "readln_from buf ((c # l) @ LF # rest) maxlen =
      readln_from (buf @ [c]) (l @ LF # rest) maxlen"
    by auto
  also have "\<dots> = (True, (buf @ [c]) @ l, rest)"
    using Cons.prems by (intro Cons.IH) auto
  finally show ?case by simp
qed

lemma readln_from_full:
  assumes "LF \<notin> set l" and "CR \<notin> set l" and "int (length buf + length l) = maxlen - 1"
  shows "readln_from buf (l @ rest) maxlen = (True, buf @ l, rest)"
  using assms
proof (induction l arbitrary: buf)
  case Nil
  then show ?case by (cases rest) simp_all
next
  case (Cons c l)
  from Cons.prems have "readln_from buf ((c # l) @ rest) maxlen =
      readln_from (buf @ [c]) (l @ rest) maxlen"
    by auto
  also have "\<dots> = (True, (buf @ [c]) @ l, rest)"
    using Cons.prems by (intro Cons.IH) auto
  finally show ?case by simp
qed

lemma readln_from_without_CR:
  "readln_from buf (filter (\<lambda>c. c \<noteq> CR) finp) maxlen =
     (case readln_from buf finp maxlen of
        (ok, b, rest) \<Rightarrow> (ok, b, filter (\<lambda>c. c \<noteq> CR) rest))"
proof (induction finp arbitrary: buf)
  case Nil
  show ?case by simp
next
  case (Cons c finp)
  show ?case
  proof (cases "int (length buf) < maxlen - 1")
    case False
    then show ?thesis by (cases "filter (\<lambda>c. c \<noteq> CR) finp") auto
  next
    case True
    then show ?thesis using Cons.IH by simp
  qed
qed

lemma readln_without_CR:
  "readln (filter (\<lambda>c. c \<noteq> CR) finp) maxlen =
     (case readln finp maxlen of (ok, b, rest) \<Rightarrow> (ok, b, filter (\<lambda>c. c \<noteq> CR) rest))"
  by (simp add: readln_def readln_from_without_CR split: prod.splits)

lemma readKey_scan_without_CR:
  "readKey_scan (filter (\<lambda>c. c \<noteq> CR) finp) key outbuf maxlen = readKey_scan finp key outbuf maxlen"
proof (induction finp key outbuf maxlen rule: readKey_scan.induct)
  case (1 finp key outbuf maxlen)
  obtain ok b rest where r: "readln finp 127 = (ok, b, rest)"
    by (cases "readln finp 127") auto
  then have r': "readln (filter (\<lambda>c. c \<noteq> CR) finp) 127 = (ok, b, filter (\<lambda>c. c \<noteq> CR) rest)"
    by (simp add: readln_without_CR)
  have unfold: "readKey_scan finp key outbuf maxlen =
      (if ok then if strncmp_eq b key (strlen key) then strncpy outbuf (drop (strlen key) b) maxlen
                  else readKey_scan rest key outbuf maxlen
       else outbuf)"
    by (subst readKey_scan.simps) (simp add: r Let_def)
  have unfold': "readKey_scan (filter (\<lambda>c. c \<noteq> CR) finp) key outbuf maxlen =
      (if ok then if strncmp_eq b key (strlen key) then strncpy outbuf (drop (strlen key) b) maxlen
                  else readKey_scan (filter (\<lambda>c. c \<noteq> CR) rest) key outbuf maxlen
       else outbuf)"
    by (subst readKey_scan.simps) (simp add: r' Let_def)
  show ?case
  proof (cases "ok \<and> \<not> strncmp_eq b key (strlen key)")
    case True
    have f: "fst (readln finp 127)" and
      nm: "\<not> strncmp_eq (fst (snd (readln finp 127))) key (strlen key)"
      using True by (simp_all add: r)
    have ih: "readKey_scan (filter (\<lambda>c. c \<noteq> CR) rest) key outbuf maxlen =
              readKey_scan rest key outbuf maxlen"
      using "1.IH" [OF refl refl f refl nm] by (simp only: r fst_conv snd_conv)
    have "readKey_scan (filter (\<lambda>c. c \<noteq> CR) finp) key outbuf maxlen =
          readKey_scan (filter (\<lambda>c. c \<noteq> CR) rest) key outbuf maxlen"
      using True by (simp only: unfold' if_True if_False simp_thms)
    also note ih
    also have "readKey_scan rest key outbuf maxlen = readKey_scan finp key outbuf maxlen"
      using True by (simp only: unfold if_True if_False simp_thms)
    finally show ?thesis .
  next
    case False
    show ?thesis
    proof (cases ok)
      case nok: False
      then show ?thesis by (simp only: unfold unfold' if_False)
    next
      case ok: True
      with False have "strncmp_eq b key (strlen key)" by simp
      with ok show ?thesis by (simp only: unfold unfold' if_True)
    qed
  qed
qed

lemma readln_text_line:
  assumes "text_line l" and "length l \<le> 125"
  shows "readln (l @ LF # rest) 127 = (True, l @ [NUL], rest)"
proof -
  from assms have "readln_from [] (l @ LF # rest) 127 = (True, [] @ l, rest)"
    by (intro readln_from_line) (simp_all add: text_line_def)
  then show ?thesis by (simp add: readln_def)
qed

text \<open>
  A line that fills the buffer: \<^verbatim>\<open>readln\<close> stops before the line end, and the next
  call reads the line end alone, as an empty line.
\<close>

lemma readln_full_text_line:
  assumes "text_line l" and "length l = 126"
  shows "readln (l @ LF # rest) 127 = (True, l @ [NUL], LF # rest)"
proof -
  from assms have "readln_from [] (l @ (LF # rest)) 127 = (True, [] @ l, LF # rest)"
    by (intro readln_from_full) (simp_all add: text_line_def)
  then show ?thesis by (simp add: readln_def)
qed

lemma readln_line_end: "readln (LF # rest) 127 = (True, [NUL], rest)"
  by (simp add: readln_def LF_def CR_def)

lemma match_text_line:
  assumes "text_line l" and "NUL \<notin> set key"
  shows "strncmp_eq (l @ [NUL]) key (strlen key) = (take (length key) l = key)"
  using assms
  by (simp add: strncmp_eq_def strlen_def cstr_no_NUL cstr_no_NUL_end text_line_def)

lemma strncpy_cstr_cong: "cstr a = cstr b \<Longrightarrow> strncpy dst a n = strncpy dst b n"
  by (simp add: strncpy_def)

lemma readKey_scan_line:
  assumes tl: "text_line l" and key: "NUL \<notin> set key"
  shows "readKey_scan (l @ LF # rest) key outbuf maxlen =
           (if take (length key) l = key then strncpy outbuf (drop (length key) l) maxlen
            else readKey_scan rest key outbuf maxlen)"
proof -
  have m: "strncmp_eq (l @ [NUL]) key (strlen key) = (take (length key) l = key)"
    using tl key by (rule match_text_line)
  have n: "strlen key = length key"
    using key by (simp add: strlen_def cstr_no_NUL_end)
  have copy: "strncpy outbuf (drop (length key) (l @ [NUL])) maxlen =
              strncpy outbuf (drop (length key) l) maxlen"
    if "take (length key) l = key"
  proof -
    from that have "length key \<le> length l"
      by (metis length_take min.cobounded1)
    then have "drop (length key) (l @ [NUL]) = drop (length key) l @ [NUL]" by simp
    moreover have "NUL \<notin> set (drop (length key) l)"
      using tl by (auto simp: text_line_def dest: in_set_dropD)
    ultimately have "cstr (drop (length key) (l @ [NUL])) = cstr (drop (length key) l)"
      by (simp add: cstr_no_NUL cstr_no_NUL_end)
    then show ?thesis by (rule strncpy_cstr_cong)
  qed
  show ?thesis
  proof (cases "length l \<le> 125")
    case True
    have r: "readln (l @ LF # rest) 127 = (True, l @ [NUL], rest)"
      using tl True by (rule readln_text_line)
    show ?thesis
    proof (cases "take (length key) l = key")
      case match: True
      with r m n copy show ?thesis
        by (simp add: readKey_scan.simps [of "l @ LF # rest"] Let_def)
    next
      case False
      with r m n show ?thesis
        by (simp add: readKey_scan.simps [of "l @ LF # rest"] Let_def)
    qed
  next
    case False
    with tl have full: "length l = 126" by (simp add: text_line_def)
    have r: "readln (l @ LF # rest) 127 = (True, l @ [NUL], LF # rest)"
      using tl full by (rule readln_full_text_line)
    show ?thesis
    proof (cases "take (length key) l = key")
      case match: True
      with r m n copy show ?thesis
        by (simp add: readKey_scan.simps [of "l @ LF # rest"] Let_def)
    next
      case nomatch: False
      then have "key \<noteq> []" by auto
      then have e: "\<not> strncmp_eq [NUL] key (strlen key)"
        using n key by (simp add: strncmp_eq_def cstr_def cstr_no_NUL_end [unfolded cstr_def])
      have "readKey_scan (l @ LF # rest) key outbuf maxlen =
            readKey_scan (LF # rest) key outbuf maxlen"
        using nomatch r m n
        by (simp add: readKey_scan.simps [of "l @ LF # rest"] Let_def)
      also have "\<dots> = readKey_scan rest key outbuf maxlen"
        using e by (simp add: readKey_scan.simps [of "LF # rest"] Let_def readln_line_end)
      finally show ?thesis using nomatch by simp
    qed
  qed
qed

lemma readKey_scan_text:
  assumes "\<forall>l \<in> set ls. text_line l" and "NUL \<notin> set key"
  shows "readKey_scan (concat (map (\<lambda>l. l @ [LF]) ls)) key outbuf maxlen =
           (case find (\<lambda>l. take (length key) l = key) ls of
              None \<Rightarrow> outbuf
            | Some l \<Rightarrow> strncpy outbuf (drop (length key) l) maxlen)"
  using assms(1)
proof (induction ls)
  case Nil
  show ?case by (simp add: readKey_scan.simps [of "[]"] readln_def Let_def)
next
  case (Cons l ls)
  then have tl: "text_line l" and rest: "\<forall>l \<in> set ls. text_line l" by simp_all
  show ?case
    using readKey_scan_line [OF tl assms(2)] Cons.IH [OF rest] by simp
qed

lemma cstr_cleared: "cstr (outbuf[0 := NUL]) = []"
  by (cases outbuf) (simp_all add: cstr_def)

lemma cstr_strncpy_short:
  assumes "NUL \<notin> set v" and "length v < n"
  shows "cstr (strncpy dst v n) = v"
proof -
  from assms(2) obtain k where k: "n - length v = Suc k"
    by (metis Suc_diff_Suc)
  from assms(2) have "take n (v @ replicate n NUL) = v @ replicate (n - length v) NUL"
    by simp
  then have "strncpy dst v n = v @ NUL # (replicate k NUL @ drop n dst)"
    using assms(1) k by (simp add: strncpy_def cstr_no_NUL_end)
  then show ?thesis using assms(1) by (simp add: cstr_no_NUL)
qed

lemma cstr_strncpy_full:
  assumes "NUL \<notin> set v" and "n \<le> length v"
  shows "cstr (strncpy dst v n) = take n v @ cstr (drop n dst)"
proof -
  have "strncpy dst v n = take n v @ drop n dst"
    using assms by (simp add: strncpy_def cstr_no_NUL_end)
  moreover have "\<forall>c \<in> set (take n v). c \<noteq> NUL"
    using assms by (auto dest: in_set_takeD)
  ultimately show ?thesis by (simp add: cstr_def)
qed

lemma cstr_strncpy_take:
  assumes "NUL \<notin> set v"
  shows "take n (cstr (strncpy dst v n)) = take n v"
proof (cases "length v < n")
  case True
  with assms show ?thesis by (simp add: cstr_strncpy_short)
next
  case False
  then have "strncpy dst v n = take n v @ drop n dst"
    using assms by (simp add: strncpy_def cstr_no_NUL_end)
  moreover have "\<forall>c \<in> set (take n v). c \<noteq> NUL"
    using assms by (auto dest: in_set_takeD)
  ultimately have "cstr (strncpy dst v n) = take n v @ cstr (drop n dst)"
    by (simp add: cstr_def)
  with False show ?thesis by simp
qed

lemma NUL_notin_lookup_value:
  assumes "\<forall>l \<in> set ls. text_line l"
  shows "NUL \<notin> set (lookup_value key ls)"
proof (cases "find (\<lambda>l. take (length key) l = key) ls")
  case None
  then show ?thesis by (simp add: lookup_value_def)
next
  case (Some l)
  then have "l \<in> set ls"
    by (auto simp: find_Some_iff)
  with assms have "NUL \<notin> set l" by (simp add: text_line_def)
  with Some show ?thesis by (auto simp: lookup_value_def dest: in_set_dropD)
qed

lemma readKey_text:
  assumes "\<forall>l \<in> set ls. text_line l" and "NUL \<notin> set key" and "fs configFn = Some finp"
    and "filter (\<lambda>c. c \<noteq> CR) finp = concat (map (\<lambda>l. l @ [LF]) ls)"
  shows "readKey fs configFn key outbuf maxlen =
           (case find (\<lambda>l. take (length key) l = key) ls of
              None \<Rightarrow> outbuf[0 := NUL]
            | Some l \<Rightarrow> strncpy (outbuf[0 := NUL]) (drop (length key) l) maxlen)"
proof -
  have "readKey fs configFn key outbuf maxlen = readKey_scan finp key (outbuf[0 := NUL]) maxlen"
    using assms(3) by (simp add: readKey_def)
  also have "\<dots> = readKey_scan (filter (\<lambda>c. c \<noteq> CR) finp) key (outbuf[0 := NUL]) maxlen"
    by (simp only: readKey_scan_without_CR)
  also have "\<dots> = readKey_scan (concat (map (\<lambda>l. l @ [LF]) ls)) key (outbuf[0 := NUL]) maxlen"
    by (simp only: assms(4))
  finally show ?thesis
    by (simp only: readKey_scan_text [OF assms(1,2)])
qed

lemma readKey_text_cstr:
  assumes "\<forall>l \<in> set ls. text_line l" and "NUL \<notin> set key" and "fs configFn = Some finp"
    and "filter (\<lambda>c. c \<noteq> CR) finp = concat (map (\<lambda>l. l @ [LF]) ls)"
  shows "take maxlen (cstr (readKey fs configFn key outbuf maxlen)) = take maxlen (lookup_value key ls)"
    and "length (lookup_value key ls) < maxlen \<Longrightarrow>
         cstr (readKey fs configFn key outbuf maxlen) = lookup_value key ls"
    and "maxlen \<le> length (lookup_value key ls) \<Longrightarrow>
         cstr (readKey fs configFn key outbuf maxlen) =
           take maxlen (lookup_value key ls) @ cstr (drop maxlen (outbuf[0 := NUL]))"
    and "\<forall>l \<in> set ls. take (length key) l \<noteq> key \<Longrightarrow>
         cstr (readKey fs configFn key outbuf maxlen) = []"
proof -
  note r = readKey_text [of ls key fs configFn finp outbuf maxlen, OF assms]
  note n = NUL_notin_lookup_value [OF assms(1), of key]
  show "take maxlen (cstr (readKey fs configFn key outbuf maxlen)) = take maxlen (lookup_value key ls)"
  proof (cases "find (\<lambda>l. take (length key) l = key) ls")
    case None
    with r show ?thesis by (simp add: lookup_value_def cstr_cleared)
  next
    case (Some l)
    with r n show ?thesis by (simp add: lookup_value_def cstr_strncpy_take)
  qed
  show "cstr (readKey fs configFn key outbuf maxlen) = lookup_value key ls"
    if "length (lookup_value key ls) < maxlen"
  proof (cases "find (\<lambda>l. take (length key) l = key) ls")
    case None
    with r show ?thesis by (simp add: lookup_value_def cstr_cleared)
  next
    case (Some l)
    with r n that show ?thesis by (simp add: lookup_value_def cstr_strncpy_short)
  qed
  show "cstr (readKey fs configFn key outbuf maxlen) =
          take maxlen (lookup_value key ls) @ cstr (drop maxlen (outbuf[0 := NUL]))"
    if "maxlen \<le> length (lookup_value key ls)"
  proof (cases "find (\<lambda>l. take (length key) l = key) ls")
    case None
    with that have "maxlen = 0" by (simp add: lookup_value_def)
    with None r show ?thesis by (simp add: lookup_value_def)
  next
    case (Some l)
    with r n that show ?thesis by (simp add: lookup_value_def cstr_strncpy_full)
  qed
  show "cstr (readKey fs configFn key outbuf maxlen) = []"
    if "\<forall>l \<in> set ls. take (length key) l \<noteq> key"
  proof -
    from that have "find (\<lambda>l. take (length key) l = key) ls = None"
      by (simp add: find_None_iff)
    with r show ?thesis by (simp add: cstr_cleared)
  qed
qed

lemma readln_long_line:
  assumes "126 \<le> length l" and "LF \<notin> set (take 126 l)" and "CR \<notin> set (take 126 l)"
  shows "readln (l @ rest) 127 = (True, take 126 l @ [NUL], drop 126 l @ rest)"
proof -
  have "readln_from [] (take 126 l @ (drop 126 l @ rest)) 127 =
          (True, [] @ take 126 l, drop 126 l @ rest)"
    using assms by (intro readln_from_full) simp_all
  then have "readln_from [] (l @ rest) 127 = (True, take 126 l, drop 126 l @ rest)"
    by (simp only: append_assoc [symmetric] append_take_drop_id append_Nil)
  then show ?thesis by (simp add: readln_def)
qed

text \<open>
  C7 (amended): for a resource that cannot be opened \<^verbatim>\<open>readKey\<close> returns the empty
  string. For a text file in which every line ends with LF (carriage returns are skipped),
  has at most 126 bytes and no NUL byte: when no line begins with the key the string
  returned is empty; otherwise the first line whose prefix equals the key decides. When its
  value is shorter than \<^verbatim>\<open>maxlen\<close>, the string returned is that value. When its value
  has \<^verbatim>\<open>maxlen\<close> bytes or more, its first \<^verbatim>\<open>maxlen\<close> bytes are copied and no
  terminator is written: the string returned is those bytes followed by what the output
  buffer held from index \<^verbatim>\<open>maxlen\<close> up to its first NUL byte. Duplicate and missing
  keys raise nothing. Of a line of 126 bytes or more \<^verbatim>\<open>readln\<close> returns the first
  126 and leaves the remainder in the file.
\<close>

theorem readKey_first_matching_line:
  "(fs0 fn0 = None \<longrightarrow> cstr (readKey fs0 fn0 key outbuf maxlen) = []) \<and>
   ((\<forall>l \<in> set ls. text_line l) \<and> NUL \<notin> set key \<and> fs configFn = Some finp \<and>
    filter (\<lambda>c. c \<noteq> CR) finp = concat (map (\<lambda>l. l @ [LF]) ls) \<longrightarrow>
      ((\<forall>l \<in> set ls. take (length key) l \<noteq> key) \<longrightarrow>
         cstr (readKey fs configFn key outbuf maxlen) = []) \<and>
      (length (lookup_value key ls) < maxlen \<longrightarrow>
         cstr (readKey fs configFn key outbuf maxlen) = lookup_value key ls) \<and>
      (maxlen \<le> length (lookup_value key ls) \<longrightarrow>
         cstr (readKey fs configFn key outbuf maxlen) =
           take maxlen (lookup_value key ls) @ cstr (drop maxlen (outbuf[0 := NUL]))) \<and>
      take maxlen (cstr (readKey fs configFn key outbuf maxlen)) = take maxlen (lookup_value key ls)) \<and>
   (126 \<le> length long \<and> LF \<notin> set (take 126 long) \<and> CR \<notin> set (take 126 long) \<longrightarrow>
      readln (long @ rest) 127 = (True, take 126 long @ [NUL], drop 126 long @ rest))"
proof (intro conjI impI)
  assume "fs0 fn0 = None"
  then show "cstr (readKey fs0 fn0 key outbuf maxlen) = []"
    by (simp add: readKey_def cstr_cleared)
next
  assume a: "(\<forall>l \<in> set ls. text_line l) \<and> NUL \<notin> set key \<and> fs configFn = Some finp \<and>
    filter (\<lambda>c. c \<noteq> CR) finp = concat (map (\<lambda>l. l @ [LF]) ls)"
  then have h: "\<forall>l \<in> set ls. text_line l" "NUL \<notin> set key" "fs configFn = Some finp"
    "filter (\<lambda>c. c \<noteq> CR) finp = concat (map (\<lambda>l. l @ [LF]) ls)"
    by simp_all
  assume "\<forall>l \<in> set ls. take (length key) l \<noteq> key"
  with h show "cstr (readKey fs configFn key outbuf maxlen) = []"
    by (rule readKey_text_cstr(4))
next
  assume a: "(\<forall>l \<in> set ls. text_line l) \<and> NUL \<notin> set key \<and> fs configFn = Some finp \<and>
    filter (\<lambda>c. c \<noteq> CR) finp = concat (map (\<lambda>l. l @ [LF]) ls)"
  then have h: "\<forall>l \<in> set ls. text_line l" "NUL \<notin> set key" "fs configFn = Some finp"
    "filter (\<lambda>c. c \<noteq> CR) finp = concat (map (\<lambda>l. l @ [LF]) ls)"
    by simp_all
  assume "length (lookup_value key ls) < maxlen"
  with h show "cstr (readKey fs configFn key outbuf maxlen) = lookup_value key ls"
    by (rule readKey_text_cstr(2))
next
  assume a: "(\<forall>l \<in> set ls. text_line l) \<and> NUL \<notin> set key \<and> fs configFn = Some finp \<and>
    filter (\<lambda>c. c \<noteq> CR) finp = concat (map (\<lambda>l. l @ [LF]) ls)"
  then have h: "\<forall>l \<in> set ls. text_line l" "NUL \<notin> set key" "fs configFn = Some finp"
    "filter (\<lambda>c. c \<noteq> CR) finp = concat (map (\<lambda>l. l @ [LF]) ls)"
    by simp_all
  assume "maxlen \<le> length (lookup_value key ls)"
  with h show "cstr (readKey fs configFn key outbuf maxlen) =
      take maxlen (lookup_value key ls) @ cstr (drop maxlen (outbuf[0 := NUL]))"
    by (rule readKey_text_cstr(3))
next
  assume a: "(\<forall>l \<in> set ls. text_line l) \<and> NUL \<notin> set key \<and> fs configFn = Some finp \<and>
    filter (\<lambda>c. c \<noteq> CR) finp = concat (map (\<lambda>l. l @ [LF]) ls)"
  then have h: "\<forall>l \<in> set ls. text_line l" "NUL \<notin> set key" "fs configFn = Some finp"
    "filter (\<lambda>c. c \<noteq> CR) finp = concat (map (\<lambda>l. l @ [LF]) ls)"
    by simp_all
  show "take maxlen (cstr (readKey fs configFn key outbuf maxlen)) = take maxlen (lookup_value key ls)"
    using h by (rule readKey_text_cstr(1))
next
  assume "126 \<le> length long \<and> LF \<notin> set (take 126 long) \<and> CR \<notin> set (take 126 long)"
  then show "readln (long @ rest) 127 = (True, take 126 long @ [NUL], drop 126 long @ rest)"
    by (intro readln_long_line) simp_all
qed

theorem readKey_first_matching_line_witness:
  "Map.empty CONFIGFN = None \<and>
   cstr (readKey Map.empty CONFIGFN ''UPDATERATE='' (replicate 32 NUL) 15) = [] \<and>
   list_all text_line example_lines \<and>
   [CONFIGFN \<mapsto> example_config] CONFIGFN = Some example_config \<and>
   filter (\<lambda>c. c \<noteq> CR) example_config = concat (map (\<lambda>l. l @ [LF]) example_lines) \<and>
   NUL \<notin> set ''UNITS='' \<and>
   list_all (\<lambda>l. take (length ''UNITS='') l \<noteq> ''UNITS='') example_lines \<and>
   cstr (readKey [CONFIGFN \<mapsto> example_config] CONFIGFN ''UNITS='' (replicate 32 (CHR ''#'')) 15) = [] \<and>
   NUL \<notin> set ''UPDATERATE='' \<and>
   lookup_value ''UPDATERATE='' example_lines = ''5'' \<and>
   cstr (readKey [CONFIGFN \<mapsto> example_config] CONFIGFN ''UPDATERATE='' (replicate 32 (CHR ''#'')) 15)
     = ''5'' \<and>
   NUL \<notin> set ''SENSOR='' \<and>
   lookup_value ''SENSOR='' example_lines = ''DHT22 on the porch'' \<and>
   cstr (readKey [CONFIGFN \<mapsto> example_config] CONFIGFN ''SENSOR='' (replicate 32 (CHR ''#'')) 15)
     = ''DHT22 on the po'' @ replicate 17 (CHR ''#'') \<and>
   126 \<le> length (replicate 130 (CHR ''#'')) \<and>
   LF \<notin> set (take 126 (replicate 130 (CHR ''#''))) \<and>
   CR \<notin> set (take 126 (replicate 130 (CHR ''#''))) \<and>
   readln (replicate 130 (CHR ''#'') @ ''K=v'') 127 =
     (True, replicate 126 (CHR ''#'') @ [NUL], replicate 4 (CHR ''#'') @ ''K=v'')"
proof -
  have la: "list_all text_line example_lines" by code_simp
  then have h1: "\<forall>l \<in> set example_lines. text_line l" by (simp add: list_all_iff)
  have h3: "[CONFIGFN \<mapsto> example_config] CONFIGFN = Some example_config"
    by simp
  have h4: "filter (\<lambda>c. c \<noteq> CR) example_config = concat (map (\<lambda>l. l @ [LF]) example_lines)"
    by code_simp
  have k: "NUL \<notin> set ''UNITS=''" "NUL \<notin> set ''UPDATERATE=''" "NUL \<notin> set ''SENSOR=''"
    by (simp_all add: NUL_def)
  have lu: "list_all (\<lambda>l. take (length ''UNITS='') l \<noteq> ''UNITS='') example_lines" by code_simp
  then have nu: "\<forall>l \<in> set example_lines. take (length ''UNITS='') l \<noteq> ''UNITS=''"
    by (simp add: list_all_iff)
  have v: "lookup_value ''UPDATERATE='' example_lines = ''5''"
    "lookup_value ''SENSOR='' example_lines = ''DHT22 on the porch''"
    "cstr (drop 15 ((replicate 32 (CHR ''#''))[0 := NUL])) = replicate 17 (CHR ''#'')"
    by code_simp+
  have h5: "126 \<le> length (replicate 130 (CHR ''#''))"
    "LF \<notin> set (take 126 (replicate 130 (CHR ''#'')))"
    "CR \<notin> set (take 126 (replicate 130 (CHR ''#'')))"
    by (simp_all add: LF_def CR_def)
  have t: "take 126 (replicate 130 (CHR ''#'')) = replicate 126 (CHR ''#'')"
    "drop 126 (replicate 130 (CHR ''#'')) = replicate 4 (CHR ''#'')"
    by simp_all
  have 1: "cstr (readKey Map.empty CONFIGFN ''UPDATERATE='' (replicate 32 NUL) 15) = []"
    using readKey_first_matching_line [of Map.empty CONFIGFN "''UPDATERATE=''" "replicate 32 NUL" 15]
    by simp
  have 2: "cstr (readKey [CONFIGFN \<mapsto> example_config] CONFIGFN ''UNITS=''
                   (replicate 32 (CHR ''#'')) 15) = []"
    using h1 h3 h4 k(1) nu
      readKey_first_matching_line [of _ _ "''UNITS=''" "replicate 32 (CHR ''#'')" 15 example_lines
        "[CONFIGFN \<mapsto> example_config]" CONFIGFN example_config]
    by blast
  have 3: "cstr (readKey [CONFIGFN \<mapsto> example_config] CONFIGFN ''UPDATERATE=''
                   (replicate 32 (CHR ''#'')) 15) = ''5''"
  proof -
    have "length (lookup_value ''UPDATERATE='' example_lines) < 15" by (simp add: v)
    with h1 h3 h4 k(2)
      readKey_first_matching_line [of _ _ "''UPDATERATE=''" "replicate 32 (CHR ''#'')" 15
        example_lines "[CONFIGFN \<mapsto> example_config]" CONFIGFN example_config]
    have "cstr (readKey [CONFIGFN \<mapsto> example_config] CONFIGFN ''UPDATERATE=''
                   (replicate 32 (CHR ''#'')) 15) = lookup_value ''UPDATERATE='' example_lines"
      by blast
    then show ?thesis by (simp only: v)
  qed
  have 4: "cstr (readKey [CONFIGFN \<mapsto> example_config] CONFIGFN ''SENSOR=''
                   (replicate 32 (CHR ''#'')) 15) = ''DHT22 on the po'' @ replicate 17 (CHR ''#'')"
  proof -
    have "15 \<le> length (lookup_value ''SENSOR='' example_lines)" by (simp add: v)
    with h1 h3 h4 k(3)
      readKey_first_matching_line [of _ _ "''SENSOR=''" "replicate 32 (CHR ''#'')" 15
        example_lines "[CONFIGFN \<mapsto> example_config]" CONFIGFN example_config]
    have "cstr (readKey [CONFIGFN \<mapsto> example_config] CONFIGFN ''SENSOR=''
                   (replicate 32 (CHR ''#'')) 15) =
          take 15 (lookup_value ''SENSOR='' example_lines) @
          cstr (drop 15 ((replicate 32 (CHR ''#''))[0 := NUL]))"
      by blast
    moreover have "take 15 ''DHT22 on the porch'' = ''DHT22 on the po''" by code_simp
    ultimately show ?thesis by (simp only: v)
  qed
  have 5: "readln (replicate 130 (CHR ''#'') @ ''K=v'') 127 =
     (True, replicate 126 (CHR ''#'') @ [NUL], replicate 4 (CHR ''#'') @ ''K=v'')"
    using h5 t
      readKey_first_matching_line [of _ _ _ _ _ _ _ _ _ "replicate 130 (CHR ''#'')" "''K=v''"]
    by simp
  show ?thesis
    using la h3 h4 k lu v(1,2) h5 1 2 3 4 5 by simp
qed

text \<open>
  C7 as stated fails in three ways. A last line without a line end is not looked at: the
  key is not found. A value of \<^verbatim>\<open>maxlen\<close> bytes or more is cut, and the string
  returned runs on into what the output buffer held before. The remainder of a line longer
  than the buffer is read as a line of its own: the key is found in a file whose only line
  does not begin with it.
\<close>

theorem readKey_counterexample:
  "cstr (readKey [CONFIGFN \<mapsto> ''UPDATERATE=5''] CONFIGFN ''UPDATERATE='' (replicate 32 NUL) 15) = [] \<and>
   cstr (readKey [CONFIGFN \<mapsto> ''SENSOR=DHT22 on the porch'' @ [LF]] CONFIGFN ''SENSOR=''
           (replicate 32 NUL) 15) = ''DHT22 on the po'' \<and>
   cstr (readKey [CONFIGFN \<mapsto> ''SENSOR=DHT22 on the porch'' @ [LF]] CONFIGFN ''SENSOR=''
           (replicate 32 (CHR ''#'')) 15) = ''DHT22 on the po'' @ replicate 17 (CHR ''#'') \<and>
   cstr (readKey [CONFIGFN \<mapsto> replicate 126 (CHR ''#'') @ ''UPDATERATE=5'' @ [LF]] CONFIGFN
           ''UPDATERATE='' (replicate 32 NUL) 15) = ''5''"
  by code_simp

end
